theory Spec2Isabelle
  imports Main "HOL-Library.Sublist"
begin

section \<open>Tensor expressions\<close>

text \<open>
  The Python exceptions the two operators of \<^verbatim>\<open>vta_conv2d.py\<close> can end with.
  An \<^verbatim>\<open>assert\<close> that fails is \<open>AssertionError\<close>; the specification calls the
  failed assertions of the classifier \<^verbatim>\<open>MalformedGraph\<close>.
\<close>

datatype error =
    InvalidShapeError | AssertionError | IndexError | ValueError
  | KeyError | TypeError | AttributeError | TVMError

definition ebind :: "error + 'a \<Rightarrow> ('a \<Rightarrow> error + 'b) \<Rightarrow> error + 'b" where
  "ebind m f = (case m of Inl e \<Rightarrow> Inl e | Inr x \<Rightarrow> f x)"

text \<open>
  A loop variable. The axes an operation declares are \<open>IterVar\<close>s with a constant
  extent (\<^verbatim>\<open>te.compute\<close> axes are data-parallel, \<^verbatim>\<open>te.reduce_axis\<close> ones are
  reductions); splitting a variable \<open>v\<close> yields the two new variables \<open>Outer v\<close> and
  \<open>Inner v\<close>; \<^verbatim>\<open>te.thread_axis(name)\<close> is \<open>ThreadAxis name\<close>.
\<close>

datatype iter_type = DataPar | CommReduce

datatype itervar =
    IterVar iter_type string int
  | Outer itervar
  | Inner itervar
  | ThreadAxis string

text \<open>
  What a compute operation computes, as far as the operators of this file decide it:
  a padding (with the widths before and after each axis), the packed convolution
  (strides and the datatype both factors are cast to), a cached copy, or anything else.
\<close>

datatype body =
    PadBody "int list" "int list"
  | Conv2dBody int int string
  | CacheBody
  | OtherBody

text \<open>
  An operation of the compute graph. \<open>op_id\<close> stands for the identity of the Python
  object (\<^verbatim>\<open>same_as\<close> compares references). Every operation here has one output, so a
  tensor is identified with the operation that produces it: \<^verbatim>\<open>tensor.op\<close> is the
  tensor itself, \<^verbatim>\<open>op.output(0)\<close> the operation. A node reached along two paths
  appears as the same value at both places.
\<close>

datatype op =
    PlaceholderOp (op_id: nat) (op_name: string) "int list" string
  | ComputeOp (op_id: nat) (op_name: string) string "(string \<times> int) list"
      "(string \<times> int) list" string body "op list"

type_synonym tensor = op

fun tag :: "op \<Rightarrow> string" where
  "tag (PlaceholderOp i n sh dt) = []"
| "tag (ComputeOp i n tg ax rax dt b ins) = tg"

fun dtype :: "tensor \<Rightarrow> string" where
  "dtype (PlaceholderOp i n sh dt) = dt"
| "dtype (ComputeOp i n tg ax rax dt b ins) = dt"

fun shape :: "tensor \<Rightarrow> int list" where
  "shape (PlaceholderOp i n sh dt) = sh"
| "shape (ComputeOp i n tg ax rax dt b ins) = map snd ax"

fun input_tensors :: "op \<Rightarrow> tensor list" where
  "input_tensors (PlaceholderOp i n sh dt) = []"
| "input_tensors (ComputeOp i n tg ax rax dt b ins) = ins"

fun op_body :: "op \<Rightarrow> body" where
  "op_body (PlaceholderOp i n sh dt) = OtherBody"
| "op_body (ComputeOp i n tg ax rax dt b ins) = b"

text \<open>\<^verbatim>\<open>op.axis\<close> and \<^verbatim>\<open>op.reduce_axis\<close>; a placeholder has neither attribute.\<close>

fun axis :: "op \<Rightarrow> error + itervar list" where
  "axis (PlaceholderOp i n sh dt) = Inl AttributeError"
| "axis (ComputeOp i n tg ax rax dt b ins) = Inr (map (\<lambda>(nm, e). IterVar DataPar nm e) ax)"

fun reduce_axis :: "op \<Rightarrow> error + itervar list" where
  "reduce_axis (PlaceholderOp i n sh dt) = Inl AttributeError"
| "reduce_axis (ComputeOp i n tg ax rax dt b ins) =
     Inr (map (\<lambda>(nm, e). IterVar CommReduce nm e) rax)"

fun is_PlaceholderOp :: "op \<Rightarrow> bool" where
  "is_PlaceholderOp (PlaceholderOp i n sh dt) = True"
| "is_PlaceholderOp (ComputeOp i n tg ax rax dt b ins) = False"

fun is_ComputeOp :: "op \<Rightarrow> bool" where
  "is_ComputeOp (PlaceholderOp i n sh dt) = False"
| "is_ComputeOp (ComputeOp i n tg ax rax dt b ins) = True"

definition same_as :: "op \<Rightarrow> op \<Rightarrow> bool" where
  "same_as a b = (a = b)"

text \<open>The largest object identity in a graph: a new object gets a larger one.\<close>

fun max_id :: "op \<Rightarrow> nat" where
  "max_id (PlaceholderOp i n sh dt) = i"
| "max_id (ComputeOp i n tg ax rax dt b ins) = max i (fold max (map max_id ins) 0)"

text \<open>Python's \<^verbatim>\<open>needle in haystack\<close> on strings.\<close>

fun str_contains :: "string \<Rightarrow> string \<Rightarrow> bool" where
  "str_contains needle [] = (needle = [])"
| "str_contains needle (c # cs) = (prefix needle (c # cs) \<or> str_contains needle cs)"

section \<open>The autotuning configuration\<close>

text \<open>
  Modelled from the spec: the autotuning configuration object \<^verbatim>\<open>cfg\<close>
  (\<^verbatim>\<open>tvm.autotvm\<close>, not among the sources). It accumulates the flop count, records
  each declared tunable (a 2-way split of an axis, or a knob with its candidate values),
  and resolves a tunable's name to a value: a split to its pair (outer extent, inner
  extent), a knob to its multiplicity.
\<close>

datatype knob = SplitSpace itervar nat | OtherOptionSpace "int list"

datatype entity = SplitEntity int int | OtherOptionEntity int

record config =
  flop :: int
  space_map :: "(string \<times> knob) list"
  entity_map :: "string \<Rightarrow> entity option"

definition add_flop :: "config \<Rightarrow> int \<Rightarrow> config" where
  "add_flop cfg n = cfg\<lparr>flop := flop cfg + n\<rparr>"

definition define_split :: "config \<Rightarrow> string \<Rightarrow> itervar \<Rightarrow> nat \<Rightarrow> config" where
  "define_split cfg name ax num_outputs =
     cfg\<lparr>space_map := space_map cfg @ [(name, SplitSpace ax num_outputs)]\<rparr>"

definition define_knob :: "config \<Rightarrow> string \<Rightarrow> int list \<Rightarrow> config" where
  "define_knob cfg name candidate =
     cfg\<lparr>space_map := space_map cfg @ [(name, OtherOptionSpace candidate)]\<rparr>"

section \<open>The packed compute definition\<close>

text \<open>
  Modelled from the spec: \<^verbatim>\<open>topi.nn.pad\<close> (not among the sources), called with the
  widths before each axis only, which pads each axis by the same width after it. The
  result is a new compute operation over the padded shape that reads \<open>data\<close>; the
  schedule recognises it by the substring \<^verbatim>\<open>pad\<close> of its tag (line 115).
\<close>

definition pad :: "nat \<Rightarrow> tensor \<Rightarrow> int list \<Rightarrow> string \<Rightarrow> error + tensor" where
  "pad new_id data pad_before name =
     (if length pad_before \<noteq> length (shape data) then Inl ValueError
      else Inr (ComputeOp new_id name ''injective,pad''
             (map (\<lambda>k. (''i'' @ [char_of (48 + k)],
                        shape data ! k + pad_before ! k + pad_before ! k))
                  [0 ..< length (shape data)])
             [] (dtype data) (PadBody pad_before pad_before) [data]))"

text \<open>
  The quotient of two constant extents, \<^verbatim>\<open>a // b\<close> on tensor-expression integers:
  floor division, which the expression simplifier refuses for a zero divisor.
\<close>

definition floordiv :: "int \<Rightarrow> int \<Rightarrow> error + int" where
  "floordiv a b = (if b = 0 then Inl TVMError else Inr (a div b))"

text \<open>
  The flop count of line 64 is computed on numpy's 64-bit integers: \<^verbatim>\<open>np.prod\<close> of a
  tuple of integers is an \<^verbatim>\<open>int64\<close>, and so is every product with it. \<open>wrap64\<close> is the
  value a result takes in the signed 64-bit range, \<open>mul64\<close> the product of two such
  integers and \<open>np_prod\<close> the product of a list, from 1 and from the left. The extents
  themselves are taken to fit in 64 bits.
\<close>

definition wrap64 :: "int \<Rightarrow> int" where
  "wrap64 x = (x + 2 ^ 63) mod 2 ^ 64 - 2 ^ 63"

definition mul64 :: "int \<Rightarrow> int \<Rightarrow> int" where
  "mul64 a b = wrap64 (a * b)"

definition np_prod :: "int list \<Rightarrow> int" where
  "np_prod xs = fold (\<lambda>x a. mul64 a x) xs 1"

text \<open>
  \<^verbatim>\<open>conv2d_packed\<close> (lines 33 to 67). \<open>is_packed_layout\<close> is the layout check of
  \<^verbatim>\<open>.util\<close>, a parameter here. Strides, padding and dilation are pairs; shapes are
  constant, so \<^verbatim>\<open>get_const_int\<close> and \<^verbatim>\<open>get_const_tuple\<close> return their argument.
  The result is the output tensor and the configuration with the flop count added.
\<close>

definition conv2d_packed ::
  "(string \<Rightarrow> bool) \<Rightarrow> config \<Rightarrow> tensor \<Rightarrow> tensor \<Rightarrow> int \<times> int \<Rightarrow> int \<times> int \<Rightarrow> int \<times> int
     \<Rightarrow> string \<Rightarrow> string \<Rightarrow> error + (tensor \<times> config)" where
  "conv2d_packed is_packed_layout cfg data kernel_t strides padding dilation layout out_dtype =
     (if \<not> is_packed_layout layout then Inl InvalidShapeError
      else if dilation \<noteq> (1, 1) then Inl AssertionError
      else
        ebind (if fst padding \<noteq> 0
               then pad (Suc (max (max_id data) (max_id kernel_t))) data
                      [0, 0, fst padding, snd padding, 0, 0] ''pad_data''
               else Inr data) (\<lambda>pad_data.
        if length (shape data) \<noteq> 6 then Inl AssertionError
        else if length (shape kernel_t) \<noteq> 6 then Inl AssertionError
        else
          ebind (floordiv (shape pad_data ! 2 - shape kernel_t ! 2) (fst strides)) (\<lambda>qh.
          ebind (floordiv (shape pad_data ! 3 - shape kernel_t ! 3) (snd strides)) (\<lambda>qw.
          let oheight = qh + 1;
              owidth = qw + 1;
              oshape = [shape data ! 0, shape kernel_t ! 0, oheight, owidth,
                        shape data ! 4, shape kernel_t ! 4];
              ishape = shape data;
              kshape = shape kernel_t;
              d_i = (''d_i'', kshape ! 2);
              d_j = (''d_j'', kshape ! 3);
              k_o = (''k_o'', ishape ! 1);
              k_i = (''k_i'', last ishape);
              (hstride, wstride) = strides;
              res = ComputeOp (Suc (Suc (max (max_id data) (max_id kernel_t)))) ''res''
                      ''conv2d_dense''
                      (zip [''b_o'', ''c_o'', ''i'', ''j'', ''b_i'', ''c_i''] oshape)
                      [k_o, d_i, d_j, k_i] out_dtype
                      (Conv2dBody hstride wstride out_dtype) [pad_data, kernel_t]
          in Inr (res, add_flop cfg
                    (mul64 (mul64 (mul64 (mul64 (mul64 2 (np_prod oshape)) (kshape ! 2))
                       (kshape ! 3)) (ishape ! 1)) (last ishape)))))))"

section \<open>The graph classifier\<close>

text \<open>
  The four lists the classifier fills: \<^verbatim>\<open>const_ops\<close>, \<^verbatim>\<open>ewise_inputs\<close> (pairs of a
  consumer and the placeholder it reads), \<^verbatim>\<open>ewise_ops\<close> and \<^verbatim>\<open>conv2d_res\<close>.
\<close>

record classes =
  const_ops :: "op list"
  ewise_inputs :: "(op \<times> tensor) list"
  ewise_ops :: "op list"
  conv2d_res :: "op list"

definition no_classes :: classes where
  "no_classes = \<lparr>const_ops = [], ewise_inputs = [], ewise_ops = [], conv2d_res = []\<rparr>"

lemma size_list_input_tensors: "size_list size (input_tensors x) \<le> size x"
  by (cases x) simp_all

lemma size_input_tensors: "t \<in> set (input_tensors x) \<Longrightarrow> size t < size x"
  by (cases x) (auto simp: less_Suc_eq_le size_list_estimation')

text \<open>
  \<^verbatim>\<open>_traverse\<close> of \<^verbatim>\<open>schedule_conv2d_packed\<close> (lines 81 to 95); \<open>traverse_inputs\<close> is
  its loop over the input tensors. \<open>is_broadcast\<close> is \<^verbatim>\<open>topi.tag.is_broadcast\<close>, a
  parameter. The lists are appended to in place, so the classes found so far are passed
  along. There is no set of visited operations.
\<close>

function traverse :: "(string \<Rightarrow> bool) \<Rightarrow> op \<Rightarrow> op \<Rightarrow> classes \<Rightarrow> error + classes"
  and traverse_inputs ::
    "(string \<Rightarrow> bool) \<Rightarrow> op \<Rightarrow> op \<Rightarrow> tensor list \<Rightarrow> classes \<Rightarrow> error + classes" where
  "traverse is_broadcast output x c =
     (if is_broadcast (tag x) then
        (case (if \<not> same_as x output then
                 (case axis x of
                    Inl e \<Rightarrow> Inl e
                  | Inr ax \<Rightarrow>
                      if ax = [] then Inr (c\<lparr>const_ops := const_ops c @ [x]\<rparr>)
                      else Inr (c\<lparr>ewise_ops := ewise_ops c @ [x]\<rparr>))
               else Inr c) of
           Inl e \<Rightarrow> Inl e
         | Inr c1 \<Rightarrow> traverse_inputs is_broadcast output x (input_tensors x) c1)
      else if tag x \<noteq> ''conv2d_dense'' then Inl AssertionError
      else Inr (c\<lparr>conv2d_res := conv2d_res c @ [x]\<rparr>))"
| "traverse_inputs is_broadcast output x [] c = Inr c"
| "traverse_inputs is_broadcast output x (t # ts) c =
     (case (if is_PlaceholderOp t then Inr (c\<lparr>ewise_inputs := ewise_inputs c @ [(x, t)]\<rparr>)
            else traverse is_broadcast output t c) of
        Inl e \<Rightarrow> Inl e
      | Inr c1 \<Rightarrow> traverse_inputs is_broadcast output x ts c1)"
  by pat_completeness auto
termination
proof (relation "measure (\<lambda>a. case a of
    Inl (_, _, x, _) \<Rightarrow> 2 * size x + 2
  | Inr (_, _, _, ts, _) \<Rightarrow> 2 * size_list size ts + 1)")
  show "wf (measure (\<lambda>a. case a of
      Inl (_, _, x, _) \<Rightarrow> 2 * size x + 2
    | Inr (_, _, _, ts, _) \<Rightarrow> 2 * size_list size ts + 1))"
    by simp
qed (use size_list_input_tensors in \<open>auto simp: less_Suc_eq_le\<close>)

declare traverse.simps [simp del]

text \<open>
  The operations \<^verbatim>\<open>_traverse\<close> is called on, in the order of the calls: the operation
  itself and, when it is broadcast-tagged, what the calls on its computed inputs visit.
\<close>

function visits :: "(string \<Rightarrow> bool) \<Rightarrow> op \<Rightarrow> op list" where
  "visits is_broadcast x =
     x # (if is_broadcast (tag x)
          then concat (map (visits is_broadcast)
                 (filter (\<lambda>t. \<not> is_PlaceholderOp t) (input_tensors x)))
          else [])"
  by pat_completeness auto
termination
proof (relation "measure (\<lambda>(_, x). size x)")
  fix is_broadcast :: "string \<Rightarrow> bool" and x t :: op
  assume "t \<in> set (filter (\<lambda>t. \<not> is_PlaceholderOp t) (input_tensors x))"
  then have "t \<in> set (input_tensors x)"
    by simp
  with size_input_tensors [of t x]
  show "((is_broadcast, t), (is_broadcast, x)) \<in> measure (\<lambda>(_, x). size x)"
    by simp
qed simp

declare visits.simps [simp del]

text \<open>\<^verbatim>\<open>is_cast_op\<close> of \<^verbatim>\<open>_schedule_add\<close> (line 198).\<close>

definition is_cast_op :: "op \<Rightarrow> bool" where
  "is_cast_op x = (op_name x = ''T_cast'')"

text \<open>
  \<^verbatim>\<open>_traverse\<close> of \<^verbatim>\<open>_schedule_add\<close> (lines 215 to 234), with its two loops over the
  input tensors: \<open>traverse_add_inputs\<close> under a broadcast-tagged operation,
  \<open>traverse_add_others\<close> under any other.
\<close>

function traverse_add :: "(string \<Rightarrow> bool) \<Rightarrow> op \<Rightarrow> op \<Rightarrow> classes \<Rightarrow> error + classes"
  and traverse_add_inputs ::
    "(string \<Rightarrow> bool) \<Rightarrow> op \<Rightarrow> op \<Rightarrow> tensor list \<Rightarrow> classes \<Rightarrow> error + classes"
  and traverse_add_others ::
    "(string \<Rightarrow> bool) \<Rightarrow> op \<Rightarrow> op \<Rightarrow> tensor list \<Rightarrow> classes \<Rightarrow> error + classes" where
  "traverse_add is_broadcast output x c =
     (if is_broadcast (tag x) then
        (case (if \<not> same_as x output then
                 (case axis x of
                    Inl e \<Rightarrow> Inl e
                  | Inr ax \<Rightarrow>
                      if ax = [] then Inr (c\<lparr>const_ops := const_ops c @ [x]\<rparr>)
                      else if \<not> is_cast_op x then Inr (c\<lparr>ewise_ops := ewise_ops c @ [x]\<rparr>)
                      else Inr c)
               else Inr c) of
           Inl e \<Rightarrow> Inl e
         | Inr c1 \<Rightarrow> traverse_add_inputs is_broadcast output x (input_tensors x) c1)
      else traverse_add_others is_broadcast output x (input_tensors x) c)"
| "traverse_add_inputs is_broadcast output x [] c = Inr c"
| "traverse_add_inputs is_broadcast output x (t # ts) c =
     (case (if is_PlaceholderOp t then Inr (c\<lparr>ewise_inputs := ewise_inputs c @ [(x, t)]\<rparr>)
            else if is_cast_op t \<and> \<not> same_as x output
              then Inr (c\<lparr>ewise_inputs := ewise_inputs c @ [(x, t)]\<rparr>)
            else traverse_add is_broadcast output t c) of
        Inl e \<Rightarrow> Inl e
      | Inr c1 \<Rightarrow> traverse_add_inputs is_broadcast output x ts c1)"
| "traverse_add_others is_broadcast output x [] c = Inr c"
| "traverse_add_others is_broadcast output x (t # ts) c =
     (case (if \<not> is_PlaceholderOp t \<and> \<not> is_cast_op t
            then traverse_add is_broadcast output t c
            else Inr c) of
        Inl e \<Rightarrow> Inl e
      | Inr c1 \<Rightarrow> traverse_add_others is_broadcast output x ts c1)"
  by pat_completeness auto
termination
proof (relation "measure (\<lambda>a. case a of
    Inl (_, _, x, _) \<Rightarrow> 2 * size x + 2
  | Inr (Inl (_, _, _, ts, _)) \<Rightarrow> 2 * size_list size ts + 1
  | Inr (Inr (_, _, _, ts, _)) \<Rightarrow> 2 * size_list size ts + 1)")
  show "wf (measure (\<lambda>a. case a of
      Inl (_, _, x, _) \<Rightarrow> 2 * size x + 2
    | Inr (Inl (_, _, _, ts, _)) \<Rightarrow> 2 * size_list size ts + 1
    | Inr (Inr (_, _, _, ts, _)) \<Rightarrow> 2 * size_list size ts + 1))"
    by simp
qed (use size_list_input_tensors in \<open>auto simp: less_Suc_eq_le\<close>)

declare traverse_add.simps [simp del]

section \<open>Schedules\<close>

text \<open>
  Modelled from the spec: the schedule and its primitives (\<^verbatim>\<open>tvm.te.schedule\<close>, not
  among the sources). A stage wraps one operation and holds its loop-axis ordering
  (\<open>leaf_iter_vars\<close>), the splits applied to it (\<open>relations\<close>: the axis split and the
  factor), its memory scope, its attach point (none for a root stage, inlined, or the
  axis of another stage under which it is computed) and its instruction annotations
  (pragmas, tensorize and thread bindings), each bound to an axis. A schedule maps each
  operation to its stage; \<open>next_id\<close> is the identity the next cached copy will get.
  How the readers of a cached tensor are rewired is not modelled.
\<close>

datatype attach_type = GroupRoot | Inline | Scope op itervar

datatype annotation = Pragma itervar string | Tensorize itervar string | Bind itervar itervar

record stage =
  leaf_iter_vars :: "itervar list"
  relations :: "(itervar \<times> int) list"
  scope :: string
  attach :: attach_type
  annotations :: "annotation list"

record schedule =
  stage_map :: "op \<Rightarrow> stage option"
  outputs :: "op list"
  next_id :: nat

text \<open>Modelled from the spec: the accelerator environment \<^verbatim>\<open>get_env()\<close>.\<close>

record environment =
  inp_scope :: string
  wgt_scope :: string
  acc_scope :: string
  alu :: string
  dma_copy :: string
  gemm :: string

fun root_iter_vars :: "op \<Rightarrow> itervar list" where
  "root_iter_vars (PlaceholderOp i n sh dt) = []"
| "root_iter_vars (ComputeOp i n tg ax rax dt b ins) =
     map (\<lambda>(nm, e). IterVar DataPar nm e) ax @ map (\<lambda>(nm, e). IterVar CommReduce nm e) rax"

definition new_stage :: "op \<Rightarrow> stage" where
  "new_stage x = \<lparr>leaf_iter_vars = root_iter_vars x, relations = [], scope = [],
     attach = GroupRoot, annotations = []\<rparr>"

text \<open>All operations of a graph, the root first.\<close>

function nodes :: "op \<Rightarrow> op list" where
  "nodes x = x # concat (map nodes (input_tensors x))"
  by pat_completeness auto
termination
  by (relation "measure size") (auto simp: size_input_tensors)

declare nodes.simps [simp del]

text \<open>\<^verbatim>\<open>te.create_schedule\<close>: one root stage for every operation of the graph.\<close>

definition create_schedule :: "op list \<Rightarrow> schedule" where
  "create_schedule ops =
     \<lparr>stage_map = (\<lambda>x. if x \<in> set (concat (map nodes ops)) then Some (new_stage x) else None),
      outputs = ops,
      next_id = Suc (fold max (map max_id ops) 0)\<rparr>"

text \<open>\<^verbatim>\<open>s[x]\<close>, which fails for an operation that has no stage.\<close>

definition get_stage :: "schedule \<Rightarrow> op \<Rightarrow> error + stage" where
  "get_stage s x = (case stage_map s x of None \<Rightarrow> Inl ValueError | Some st \<Rightarrow> Inr st)"

definition put_stage :: "schedule \<Rightarrow> op \<Rightarrow> stage \<Rightarrow> schedule" where
  "put_stage s x st = s\<lparr>stage_map := (stage_map s)(x \<mapsto> st)\<rparr>"

definition set_scope :: "schedule \<Rightarrow> op \<Rightarrow> string \<Rightarrow> error + schedule" where
  "set_scope s x sc = ebind (get_stage s x) (\<lambda>st. Inr (put_stage s x (st\<lparr>scope := sc\<rparr>)))"

definition compute_inline :: "schedule \<Rightarrow> op \<Rightarrow> error + schedule" where
  "compute_inline s x =
     ebind (get_stage s x) (\<lambda>st. Inr (put_stage s x (st\<lparr>attach := Inline\<rparr>)))"

text \<open>An annotation is bound to an axis of the stage's current loop nest.\<close>

definition annotate :: "schedule \<Rightarrow> op \<Rightarrow> itervar \<Rightarrow> annotation \<Rightarrow> error + schedule" where
  "annotate s x var a =
     ebind (get_stage s x) (\<lambda>st.
       if var \<in> set (leaf_iter_vars st)
       then Inr (put_stage s x (st\<lparr>annotations := annotations st @ [a]\<rparr>))
       else Inl TVMError)"

definition pragma :: "schedule \<Rightarrow> op \<Rightarrow> itervar \<Rightarrow> string \<Rightarrow> error + schedule" where
  "pragma s x var p = annotate s x var (Pragma var p)"

definition tensorize :: "schedule \<Rightarrow> op \<Rightarrow> itervar \<Rightarrow> string \<Rightarrow> error + schedule" where
  "tensorize s x var intrin = annotate s x var (Tensorize var intrin)"

definition bind_thread :: "schedule \<Rightarrow> op \<Rightarrow> itervar \<Rightarrow> itervar \<Rightarrow> error + schedule" where
  "bind_thread s x var thread = annotate s x var (Bind var thread)"

text \<open>\<^verbatim>\<open>s[x].compute_at(s[parent], var)\<close>: \<open>var\<close> is an axis of the parent's loop nest.\<close>

definition compute_at :: "schedule \<Rightarrow> op \<Rightarrow> op \<Rightarrow> itervar \<Rightarrow> error + schedule" where
  "compute_at s x parent var =
     ebind (get_stage s x) (\<lambda>st.
     ebind (get_stage s parent) (\<lambda>pst.
       if var \<in> set (leaf_iter_vars pst)
       then Inr (put_stage s x (st\<lparr>attach := Scope parent var\<rparr>))
       else Inl TVMError))"

text \<open>
  \<^verbatim>\<open>s[x].split(parent, factor)\<close>: the axis is replaced, at its place in the loop nest,
  by its outer and inner parts, which are returned.
\<close>

definition substitute :: "itervar \<Rightarrow> itervar list \<Rightarrow> itervar list" where
  "substitute parent vars =
     concat (map (\<lambda>v. if v = parent then [Outer parent, Inner parent] else [v]) vars)"

definition split ::
  "schedule \<Rightarrow> op \<Rightarrow> itervar \<Rightarrow> int \<Rightarrow> error + (schedule \<times> itervar \<times> itervar)" where
  "split s x parent factor =
     ebind (get_stage s x) (\<lambda>st.
       if parent \<in> set (leaf_iter_vars st)
       then Inr (put_stage s x
                  (st\<lparr>leaf_iter_vars := substitute parent (leaf_iter_vars st),
                      relations := relations st @ [(parent, factor)]\<rparr>),
                 Outer parent, Inner parent)
       else Inl TVMError)"

text \<open>
  \<^verbatim>\<open>s[x].reorder(*order)\<close>: the places of the loop nest that the given axes occupy are
  filled with these axes in the given order; the other axes stay where they are.
\<close>

fun refill :: "itervar list \<Rightarrow> itervar list \<Rightarrow> itervar list \<Rightarrow> itervar list" where
  "refill [] order queue = []"
| "refill (v # vs) order queue =
     (if v \<in> set order
      then (case queue of
              [] \<Rightarrow> v # refill vs order []
            | q # qs \<Rightarrow> q # refill vs order qs)
      else v # refill vs order queue)"

definition reorder :: "schedule \<Rightarrow> op \<Rightarrow> itervar list \<Rightarrow> error + schedule" where
  "reorder s x order =
     ebind (get_stage s x) (\<lambda>st.
       if distinct order \<and> list_all (\<lambda>v. v \<in> set (leaf_iter_vars st)) order
       then Inr (put_stage s x
                  (st\<lparr>leaf_iter_vars := refill (leaf_iter_vars st) order order\<rparr>))
       else Inl TVMError)"

text \<open>
  \<^verbatim>\<open>s.cache_read(tensor, scope, readers)\<close>: a new operation that copies the tensor,
  with a stage of its own in the given scope; the copy is returned.
\<close>

definition cache_read ::
  "schedule \<Rightarrow> tensor \<Rightarrow> string \<Rightarrow> op list \<Rightarrow> error + (schedule \<times> tensor)" where
  "cache_read s t sc readers =
     ebind (get_stage s t) (\<lambda>st.
       if list_all (\<lambda>r. stage_map s r \<noteq> None) readers
       then (let cache = ComputeOp (next_id s) (op_name t @ ''.'' @ sc) []
                           (map (\<lambda>k. (''ax'' @ [char_of (48 + k)], shape t ! k))
                              [0 ..< length (shape t)])
                           [] (dtype t) CacheBody [t]
             in Inr (s\<lparr>stage_map := (stage_map s)(cache \<mapsto> (new_stage cache)\<lparr>scope := sc\<rparr>),
                       next_id := Suc (next_id s)\<rparr>, cache))
       else Inl ValueError)"

text \<open>
  \<^verbatim>\<open>te.schedule.AutoInlineInjective\<close>: every stage of a compute operation without a
  reduction that is not an output of the schedule is inlined.
\<close>

definition AutoInlineInjective :: "schedule \<Rightarrow> schedule" where
  "AutoInlineInjective s =
     s\<lparr>stage_map := (\<lambda>x. map_option
          (\<lambda>st. if is_ComputeOp x \<and> reduce_axis x = Inr [] \<and> x \<notin> set (outputs s)
                then st\<lparr>attach := Inline\<rparr> else st)
          (stage_map s x))\<rparr>"

text \<open>\<^verbatim>\<open>x.op.axis[0]\<close> and \<^verbatim>\<open>s[x].pragma(s[x].op.axis[0], p)\<close>.\<close>

definition first_axis :: "op \<Rightarrow> error + itervar" where
  "first_axis x =
     ebind (axis x) (\<lambda>ax. case ax of [] \<Rightarrow> Inl IndexError | a # _ \<Rightarrow> Inr a)"

definition pragma_first_axis :: "schedule \<Rightarrow> op \<Rightarrow> string \<Rightarrow> error + schedule" where
  "pragma_first_axis s x p =
     ebind (get_stage s x) (\<lambda>st. ebind (first_axis x) (\<lambda>a. pragma s x a p))"

text \<open>A \<^verbatim>\<open>for\<close> loop over a list that updates a state and stops at the first error.\<close>

fun efold :: "('a \<Rightarrow> 's \<Rightarrow> error + 's) \<Rightarrow> 'a list \<Rightarrow> 's \<Rightarrow> error + 's" where
  "efold f [] s = Inr s"
| "efold f (x # xs) s = ebind (f x s) (efold f xs)"

text \<open>
  \<^verbatim>\<open>cfg[name].apply(s, x, ax)\<close> for a 2-way split, which splits the axis by the inner
  extent, and \<^verbatim>\<open>cfg[name].val\<close> for a knob.
\<close>

definition apply_split ::
  "config \<Rightarrow> string \<Rightarrow> schedule \<Rightarrow> op \<Rightarrow> itervar \<Rightarrow> error + (schedule \<times> itervar \<times> itervar)" where
  "apply_split cfg name s x ax =
     (case entity_map cfg name of
        None \<Rightarrow> Inl KeyError
      | Some (SplitEntity outer inner) \<Rightarrow> split s x ax inner
      | Some (OtherOptionEntity v) \<Rightarrow> Inl AttributeError)"

definition knob_val :: "config \<Rightarrow> string \<Rightarrow> error + int" where
  "knob_val cfg name =
     (case entity_map cfg name of
        None \<Rightarrow> Inl KeyError
      | Some (SplitEntity outer inner) \<Rightarrow> Inl AttributeError
      | Some (OtherOptionEntity v) \<Rightarrow> Inr v)"

section \<open>The schedule of the packed convolution\<close>

text \<open>
  Lines 73 to 98 of \<^verbatim>\<open>schedule_conv2d_packed\<close>: the checks on the outputs, the
  traversal and the check that it found one convolution.
\<close>

definition classify :: "(string \<Rightarrow> bool) \<Rightarrow> tensor list \<Rightarrow> error + (tensor \<times> classes)" where
  "classify is_broadcast outs =
     (if length outs \<noteq> 1 then Inl AssertionError
      else
        (let output = outs ! 0 in
         case input_tensors output of
           [] \<Rightarrow> Inl IndexError
         | t # ts \<Rightarrow>
             if \<not> str_contains ''int'' (dtype t) then Inl AssertionError
             else
               ebind (traverse is_broadcast output output no_classes) (\<lambda>c.
               if length (conv2d_res c) \<noteq> 1 then Inl AssertionError
               else Inr (output, c))))"

text \<open>Lines 103 to 111: the declaration of the configuration space.\<close>

definition define_space :: "config \<Rightarrow> schedule \<Rightarrow> tensor \<Rightarrow> error + config" where
  "define_space cfg s conv2d_stage =
     ebind (get_stage s conv2d_stage) (\<lambda>st.
     ebind (axis conv2d_stage) (\<lambda>ax.
       case ax of
         [b, c_o, x_i, x_j, u1, u2] \<Rightarrow>
           ebind (reduce_axis conv2d_stage) (\<lambda>rax.
             case rax of
               [c_i, u3, u4, u5] \<Rightarrow>
                 (let cfg = define_split cfg ''tile_b'' b 2;
                      cfg = define_split cfg ''tile_h'' x_i 2;
                      cfg = define_split cfg ''tile_w'' x_j 2;
                      cfg = define_split cfg ''tile_ci'' c_i 2;
                      cfg = define_split cfg ''tile_co'' c_o 2;
                      cfg = define_knob cfg ''oc_nthread'' [1, 2];
                      cfg = define_knob cfg ''h_nthread'' [1, 2]
                  in Inr cfg)
             | _ \<Rightarrow> Inl ValueError)
       | _ \<Rightarrow> Inl ValueError))"

text \<open>
  Lines 114 to 145: the activation behind a pad node, the cached copies, the scopes, the
  annotation of the elementwise stages and the inlining of the constant ones. The
  result is the schedule with \<^verbatim>\<open>cdata\<close>, \<^verbatim>\<open>ckernel\<close> and \<^verbatim>\<open>cache_read_ewise\<close>.
\<close>

definition setup_stages ::
  "environment \<Rightarrow> schedule \<Rightarrow> tensor \<Rightarrow> classes
     \<Rightarrow> error + (schedule \<times> tensor \<times> tensor \<times> tensor list)" where
  "setup_stages env s conv2d_stage c =
     (case input_tensors conv2d_stage of
        [data, kernel_t] \<Rightarrow>
          ebind (if is_ComputeOp data \<and> str_contains ''pad'' (tag data)
                 then (case input_tensors data of
                         [] \<Rightarrow> Inl IndexError
                       | temp # ts \<Rightarrow> Inr (temp, Some data))
                 else Inr (data, None)) (\<lambda>(data, pad_data).
          ebind (case pad_data of
                   Some p \<Rightarrow> ebind (set_scope s p (inp_scope env)) (\<lambda>s. Inr (s, p))
                 | None \<Rightarrow> cache_read s data (inp_scope env) [conv2d_stage]) (\<lambda>(s, cdata).
          ebind (cache_read s kernel_t (wgt_scope env) [conv2d_stage]) (\<lambda>(s, ckernel).
          ebind (set_scope s conv2d_stage (acc_scope env)) (\<lambda>s.
          ebind (efold (\<lambda>(consumer, tensor) (s, cached).
                   ebind (cache_read s tensor (acc_scope env) [consumer]) (\<lambda>(s, t).
                   Inr (s, cached @ [t])))
                 (ewise_inputs c) (s, [])) (\<lambda>(s, cache_read_ewise).
          ebind (efold (\<lambda>x s.
                   ebind (set_scope s x (acc_scope env)) (\<lambda>s.
                   pragma_first_axis s x (alu env)))
                 (ewise_ops c) s) (\<lambda>s.
          ebind (efold (\<lambda>x s. compute_inline s x) (const_ops c) s) (\<lambda>s.
          Inr (s, cdata, ckernel, cache_read_ewise))))))))
      | _ \<Rightarrow> Inl ValueError)"

text \<open>
  Lines 148 to 153: the tiling of the output stage. The result is the schedule with
  \<^verbatim>\<open>x_bo\<close>, \<^verbatim>\<open>x_co0\<close>, \<^verbatim>\<open>x_i0\<close>, \<^verbatim>\<open>x_j0\<close> (the store point) and \<^verbatim>\<open>x_co1\<close>.
\<close>

definition tile ::
  "config \<Rightarrow> schedule \<Rightarrow> tensor
     \<Rightarrow> error + (schedule \<times> itervar \<times> itervar \<times> itervar \<times> itervar \<times> itervar)" where
  "tile cfg s output =
     ebind (get_stage s output) (\<lambda>st.
     ebind (axis output) (\<lambda>ax.
       case ax of
         [x_bo, x_co, x_i, x_j, x_bi, x_ci] \<Rightarrow>
           ebind (apply_split cfg ''tile_co'' s output x_co) (\<lambda>(s, x_co0, x_co1).
           ebind (apply_split cfg ''tile_h'' s output x_i) (\<lambda>(s, x_i0, x_i1).
           ebind (apply_split cfg ''tile_w'' s output x_j) (\<lambda>(s, x_j0, x_j1).
           ebind (reorder s output [x_bo, x_i0, x_co0, x_j0, x_co1, x_i1, x_j1, x_bi, x_ci])
             (\<lambda>s.
           Inr (s, x_bo, x_co0, x_i0, x_j0, x_co1)))))
       | _ \<Rightarrow> Inl ValueError))"

text \<open>Lines 156 to 162: the attach points.\<close>

definition attach_stages ::
  "environment \<Rightarrow> schedule \<Rightarrow> tensor \<Rightarrow> itervar \<Rightarrow> tensor \<Rightarrow> classes \<Rightarrow> tensor list
     \<Rightarrow> error + schedule" where
  "attach_stages env s output store_pt conv2d_stage c cache_read_ewise =
     ebind (compute_at s conv2d_stage output store_pt) (\<lambda>s.
     ebind (efold (\<lambda>x s. compute_at s x output store_pt) (ewise_ops c) s) (\<lambda>s.
     efold (\<lambda>tensor s.
              ebind (compute_at s tensor output store_pt) (\<lambda>s.
              pragma_first_axis s tensor (dma_copy env)))
       cache_read_ewise s))"

text \<open>
  Lines 71 to 162 together: the schedule once the output stage is tiled and the stages
  are attached, with the values the rest of the function uses.
\<close>

definition schedule_conv2d_packed_tiled ::
  "environment \<Rightarrow> (string \<Rightarrow> bool) \<Rightarrow> config \<Rightarrow> tensor list
     \<Rightarrow> error + (schedule \<times> config \<times> tensor \<times> tensor \<times> tensor \<times> tensor
                  \<times> itervar \<times> itervar \<times> itervar \<times> itervar)" where
  "schedule_conv2d_packed_tiled env is_broadcast cfg outs =
     ebind (classify is_broadcast outs) (\<lambda>(output, c).
     let conv2d_stage = conv2d_res c ! 0;
         s = create_schedule [output]
     in
     ebind (define_space cfg s conv2d_stage) (\<lambda>cfg.
     ebind (setup_stages env s conv2d_stage c) (\<lambda>(s, cdata, ckernel, cache_read_ewise).
     ebind (tile cfg s output) (\<lambda>(s, x_bo, x_co0, x_i0, store_pt, x_co1).
     ebind (attach_stages env s output store_pt conv2d_stage c cache_read_ewise) (\<lambda>s.
     Inr (s, cfg, output, conv2d_stage, cdata, ckernel, x_bo, x_co0, x_i0, x_co1))))))"

text \<open>Lines 165 to 174: a virtual thread along an axis of the output stage.\<close>

definition virtual_thread ::
  "config \<Rightarrow> string \<Rightarrow> schedule \<Rightarrow> tensor \<Rightarrow> itervar \<Rightarrow> itervar \<Rightarrow> error + schedule" where
  "virtual_thread cfg name s output ax x_bo =
     ebind (knob_val cfg name) (\<lambda>v.
       if v > 1 then
         ebind (split s output ax v) (\<lambda>(s, u, v_t).
         ebind (reorder s output [v_t, x_bo]) (\<lambda>s.
         bind_thread s output v_t (ThreadAxis ''cthread'')))
       else Inr s)"

text \<open>Lines 176 to 182: the loop order of the convolution stage and its cached inputs.\<close>

definition stage_reduction ::
  "config \<Rightarrow> schedule \<Rightarrow> tensor \<Rightarrow> tensor \<Rightarrow> tensor \<Rightarrow> error + (schedule \<times> itervar)" where
  "stage_reduction cfg s conv2d_stage cdata ckernel =
     ebind (get_stage s conv2d_stage) (\<lambda>st.
     ebind (axis conv2d_stage) (\<lambda>ax.
       case ax of
         [x_bo, x_co, x_i, x_j, x_bi, x_ci] \<Rightarrow>
           ebind (reduce_axis conv2d_stage) (\<lambda>rax.
             case rax of
               [k_o, d_i, d_j, k_i] \<Rightarrow>
                 ebind (reorder s conv2d_stage
                          [x_bo, k_o, x_j, d_j, d_i, x_co, x_i, x_bi, x_ci, k_i]) (\<lambda>s.
                 ebind (apply_split cfg ''tile_ci'' s conv2d_stage k_o) (\<lambda>(s, k_o, u).
                 ebind (compute_at s cdata conv2d_stage k_o) (\<lambda>s.
                 ebind (compute_at s ckernel conv2d_stage k_o) (\<lambda>s.
                 Inr (s, x_bi)))))
             | _ \<Rightarrow> Inl ValueError)
       | _ \<Rightarrow> Inl ValueError))"

text \<open>Lines 185 to 188: the accelerator instructions.\<close>

definition use_vta_instructions ::
  "environment \<Rightarrow> schedule \<Rightarrow> tensor \<Rightarrow> tensor \<Rightarrow> tensor \<Rightarrow> tensor \<Rightarrow> itervar \<Rightarrow> itervar
     \<Rightarrow> error + schedule" where
  "use_vta_instructions env s conv2d_stage cdata ckernel output x_bi x_co1 =
     ebind (pragma_first_axis s cdata (dma_copy env)) (\<lambda>s.
     ebind (pragma_first_axis s ckernel (dma_copy env)) (\<lambda>s.
     ebind (tensorize s conv2d_stage x_bi (gemm env)) (\<lambda>s.
     pragma s output x_co1 (dma_copy env))))"

text \<open>
  \<^verbatim>\<open>schedule_conv2d_packed\<close> (lines 71 to 190). The result is the schedule and the
  configuration with the declared space.
\<close>

definition schedule_conv2d_packed ::
  "environment \<Rightarrow> (string \<Rightarrow> bool) \<Rightarrow> config \<Rightarrow> tensor list \<Rightarrow> error + (schedule \<times> config)" where
  "schedule_conv2d_packed env is_broadcast cfg outs =
     ebind (schedule_conv2d_packed_tiled env is_broadcast cfg outs)
       (\<lambda>(s, cfg, output, conv2d_stage, cdata, ckernel, x_bo, x_co0, x_i0, x_co1).
     ebind (virtual_thread cfg ''oc_nthread'' s output x_co0 x_bo) (\<lambda>s.
     ebind (virtual_thread cfg ''h_nthread'' s output x_i0 x_bo) (\<lambda>s.
     ebind (stage_reduction cfg s conv2d_stage cdata ckernel) (\<lambda>(s, x_bi).
     ebind (use_vta_instructions env s conv2d_stage cdata ckernel output x_bi x_co1) (\<lambda>s.
     Inr (s, cfg))))))"

section \<open>The schedule of the fused add\<close>

text \<open>\<^verbatim>\<open>x.dom.extent\<close>, which only an axis declared by an operation has.\<close>

fun dom_extent :: "itervar \<Rightarrow> error + int" where
  "dom_extent (IterVar ty nm e) = Inr e"
| "dom_extent (Outer v) = Inl AttributeError"
| "dom_extent (Inner v) = Inl AttributeError"
| "dom_extent (ThreadAxis nm) = Inl AttributeError"

text \<open>
  \<^verbatim>\<open>int(n**0.5)\<close> for a positive integer: the integer square root, which the floating
  point computation yields for the extents a tensor has.
\<close>

fun isqrt :: "nat \<Rightarrow> nat" where
  "isqrt 0 = 0"
| "isqrt (Suc n) = (let r = isqrt n in if Suc r * Suc r \<le> Suc n then Suc r else r)"

text \<open>
  \<^verbatim>\<open>factors\<close> (line 248): the sorted divisors of \<open>n\<close>. For \<open>n = 0\<close> the generator is
  empty and \<^verbatim>\<open>reduce\<close> fails; for a negative \<open>n\<close> the square root is complex and
  \<^verbatim>\<open>int\<close> fails.
\<close>

definition factors :: "int \<Rightarrow> error + int list" where
  "factors n =
     (if n \<le> 0 then Inl TypeError
      else Inr (sort (remdups (concat (map (\<lambda>i. [i, n div i])
             (filter (\<lambda>i. n mod i = 0) [1 .. int (isqrt (nat n))]))))))"

text \<open>
  Lines 254 to 257 (and 260 to 263): the last factor, after deleting the last one as
  long as it exceeds the bound.
\<close>

function largest_within :: "int list \<Rightarrow> int \<Rightarrow> error + int" where
  "largest_within fs bound =
     (if fs = [] then Inl IndexError
      else if last fs > bound then largest_within (butlast fs) bound
      else Inr (last fs))"
  by pat_completeness auto
termination
  by (relation "measure (\<lambda>(fs, bound). length fs)") auto

declare largest_within.simps [simp del]

definition tile_factor :: "int \<Rightarrow> int \<Rightarrow> error + int" where
  "tile_factor n bound = ebind (factors n) (\<lambda>fs. largest_within fs bound)"

text \<open>
  Lines 238 to 268 of \<^verbatim>\<open>_schedule_add\<close>: the tiling of the output stage by the
  selected factors. The result is the schedule with \<^verbatim>\<open>x_j0\<close> (the store point) and
  \<^verbatim>\<open>x_co1\<close>.
\<close>

definition add_tile :: "schedule \<Rightarrow> tensor \<Rightarrow> error + (schedule \<times> itervar \<times> itervar)" where
  "add_tile s output =
     ebind (get_stage s output) (\<lambda>st.
     ebind (axis output) (\<lambda>ax.
       case ax of
         [x_bo, x_co, x_i, x_j, x_bi, x_ci] \<Rightarrow>
           ebind (dom_extent x_bo) (\<lambda>x_co_max.
           ebind (dom_extent x_i) (\<lambda>x_i_max.
           ebind (dom_extent x_j) (\<lambda>x_j_max.
           ebind (split s output x_co 1) (\<lambda>(s, x_co0, x_co1).
           ebind (tile_factor x_i_max 28) (\<lambda>i_factor.
           ebind (tile_factor x_j_max 14) (\<lambda>j_factor.
           ebind (split s output x_i i_factor) (\<lambda>(s, x_i0, x_i1).
           ebind (split s output x_j j_factor) (\<lambda>(s, x_j0, x_j1).
           ebind (reorder s output [x_bo, x_i0, x_co0, x_j0, x_co1, x_i1, x_j1, x_bi, x_ci])
             (\<lambda>s.
           Inr (s, x_j0, x_co1))))))))))
       | _ \<Rightarrow> Inl ValueError))"

text \<open>Lines 270 to 289: the stages of the elementwise operations and their inputs.\<close>

definition add_stages ::
  "environment \<Rightarrow> schedule \<Rightarrow> tensor \<Rightarrow> itervar \<Rightarrow> itervar \<Rightarrow> classes \<Rightarrow> error + schedule" where
  "add_stages env s output store_pt x_co1 c =
     ebind (efold (\<lambda>eo s.
              ebind (set_scope s eo (acc_scope env)) (\<lambda>s.
              ebind (pragma_first_axis s eo (alu env)) (\<lambda>s.
              compute_at s eo output store_pt)))
            (ewise_ops c) s) (\<lambda>s.
     ebind (efold (\<lambda>(consumer, tensor) (s, cached).
              ebind (cache_read s tensor (acc_scope env) [consumer]) (\<lambda>(s, t).
              Inr (s, cached @ [t])))
            (ewise_inputs c) (s, [])) (\<lambda>(s, cache_read_ewise).
     ebind (efold (\<lambda>tensor s.
              ebind (pragma_first_axis s tensor (dma_copy env)) (\<lambda>s.
              compute_at s tensor output store_pt))
            cache_read_ewise s) (\<lambda>s.
     ebind (efold (\<lambda>x s. compute_inline s x) (const_ops c) s) (\<lambda>s.
     pragma s output x_co1 (dma_copy env)))))"

text \<open>\<^verbatim>\<open>_schedule_add\<close> (lines 195 to 291).\<close>

definition schedule_add ::
  "environment \<Rightarrow> (string \<Rightarrow> bool) \<Rightarrow> tensor list \<Rightarrow> error + schedule" where
  "schedule_add env is_broadcast outs =
     (if length outs \<noteq> 1 then Inl AssertionError
      else
        (let output = outs ! 0;
             s = AutoInlineInjective (create_schedule outs)
         in
         if str_contains ''int'' (dtype output) then
           ebind (traverse_add is_broadcast output output no_classes) (\<lambda>c.
           ebind (add_tile s output) (\<lambda>(s, store_pt, x_co1).
           add_stages env s output store_pt x_co1 c))
         else Inr s))"

text \<open>
  Notions used in the proofs. \<open>keeps f k s s'\<close>: going from schedule \<open>s\<close> to \<open>s'\<close>,
  no identity is reused, and the stage of an existing operation \<open>k\<close> keeps its
  component \<open>f\<close>. \<open>attached_at k parent var s\<close>: the stage of \<open>k\<close> is computed under the
  axis \<open>var\<close> of the stage of \<open>parent\<close>. \<open>is_data_axis\<close> and \<open>is_reduce_axis\<close>: the
  axes an operation declares.
\<close>

definition keeps :: "(stage \<Rightarrow> 'a) \<Rightarrow> op \<Rightarrow> schedule \<Rightarrow> schedule \<Rightarrow> bool" where
  "keeps f k s s' \<longleftrightarrow>
     next_id s \<le> next_id s' \<and>
     (op_id k < next_id s \<longrightarrow>
        (\<forall>st. stage_map s k = Some st \<longrightarrow> (\<exists>st'. stage_map s' k = Some st' \<and> f st' = f st)))"


fun is_data_axis :: "itervar \<Rightarrow> bool" where
  "is_data_axis (IterVar DataPar nm e) = True"
| "is_data_axis v = False"

fun is_reduce_axis :: "itervar \<Rightarrow> bool" where
  "is_reduce_axis (IterVar CommReduce nm e) = True"
| "is_reduce_axis v = False"

text \<open>
  The end-to-end example of the specification: an activation of shape
  \<^verbatim>\<open>[1,4,16,16,1,16]\<close>, a kernel of shape \<^verbatim>\<open>[4,4,3,3,16,16]\<close>, an empty
  configuration, and a layout check that accepts the one packed layout used.
\<close>

definition example_data :: tensor where
  "example_data = PlaceholderOp 0 ''data'' [1, 4, 16, 16, 1, 16] ''int8''"

definition example_kernel :: tensor where
  "example_kernel = PlaceholderOp 1 ''kernel'' [4, 4, 3, 3, 16, 16] ''int8''"

definition example_cfg :: config where
  "example_cfg = \<lparr>flop = 0, space_map = [], entity_map = (\<lambda>n. None)\<rparr>"

definition example_layout :: "string \<Rightarrow> bool" where
  "example_layout l = (l = ''NCHW1n16c'')"

text \<open>
  An accelerator environment, a broadcast check, and a graph over the example: the
  convolution of the padded activation, the addition of a bias to it, and a clipping
  of the sum, which is the output. \<open>example_tuned\<close> resolves every tunable.
\<close>

definition example_env :: environment where
  "example_env = \<lparr>inp_scope = ''local.inp_buffer'', wgt_scope = ''local.wgt_buffer'',
     acc_scope = ''local.acc_buffer'', alu = ''alu'', dma_copy = ''dma_copy'', gemm = ''gemm''\<rparr>"

definition example_is_broadcast :: "string \<Rightarrow> bool" where
  "example_is_broadcast t = (str_contains ''elemwise'' t \<or> str_contains ''broadcast'' t)"

definition example_res :: tensor where
  "example_res = ComputeOp 3 ''res'' ''conv2d_dense''
       [(''b_o'', 1), (''c_o'', 4), (''i'', 16), (''j'', 16), (''b_i'', 1), (''c_i'', 16)]
       [(''k_o'', 4), (''d_i'', 3), (''d_j'', 3), (''k_i'', 16)] ''int32''
       (Conv2dBody 1 1 ''int32'')
       [ComputeOp 2 ''pad_data'' ''injective,pad''
         [(''i0'', 1), (''i1'', 4), (''i2'', 18), (''i3'', 18), (''i4'', 1), (''i5'', 16)]
         [] ''int8'' (PadBody [0, 0, 1, 1, 0, 0] [0, 0, 1, 1, 0, 0]) [example_data],
        example_kernel]"

definition example_pad :: tensor where
  "example_pad = ComputeOp 2 ''pad_data'' ''injective,pad''
       [(''i0'', 1), (''i1'', 4), (''i2'', 18), (''i3'', 18), (''i4'', 1), (''i5'', 16)]
       [] ''int8'' (PadBody [0, 0, 1, 1, 0, 0] [0, 0, 1, 1, 0, 0]) [example_data]"

definition example_bias :: tensor where
  "example_bias = PlaceholderOp 4 ''bias'' [1, 4, 1, 1, 1, 16] ''int32''"

definition example_add :: tensor where
  "example_add = ComputeOp 5 ''T_add'' ''broadcast''
       [(''ax0'', 1), (''ax1'', 4), (''ax2'', 16), (''ax3'', 16), (''ax4'', 1), (''ax5'', 16)]
       [] ''int32'' OtherBody [example_res, example_bias]"

definition example_output :: tensor where
  "example_output = ComputeOp 6 ''T_clip'' ''elemwise''
       [(''ax0'', 1), (''ax1'', 4), (''ax2'', 16), (''ax3'', 16), (''ax4'', 1), (''ax5'', 16)]
       [] ''int8'' OtherBody [example_add]"

definition example_entities :: "string \<Rightarrow> entity option" where
  "example_entities name =
     (if name = ''tile_b'' then Some (SplitEntity 1 1)
      else if name = ''tile_h'' then Some (SplitEntity 2 8)
      else if name = ''tile_w'' then Some (SplitEntity 2 8)
      else if name = ''tile_ci'' then Some (SplitEntity 2 2)
      else if name = ''tile_co'' then Some (SplitEntity 2 2)
      else if name = ''oc_nthread'' then Some (OtherOptionEntity 2)
      else if name = ''h_nthread'' then Some (OtherOptionEntity 1)
      else None)"

definition example_tuned :: config where
  "example_tuned = \<lparr>flop = 0, space_map = [], entity_map = example_entities\<rparr>"

text \<open>
  Three more graphs: \<open>shared_scale\<close>, an elementwise operation on the bias alone;
  \<open>shared_output\<close>, in which both the output and \<open>shared_product\<close> read
  \<open>shared_scale\<close>; and \<open>pooled_output\<close>, an elementwise operation on an operation
  that is neither broadcast-tagged nor the convolution.
\<close>

definition shared_scale :: tensor where
  "shared_scale = ComputeOp 5 ''T_right_shift'' ''elemwise''
       [(''ax0'', 1), (''ax1'', 4), (''ax2'', 1), (''ax3'', 1), (''ax4'', 1), (''ax5'', 16)]
       [] ''int32'' OtherBody [example_bias]"

definition shared_product :: tensor where
  "shared_product = ComputeOp 6 ''T_multiply'' ''broadcast''
       [(''ax0'', 1), (''ax1'', 4), (''ax2'', 16), (''ax3'', 16), (''ax4'', 1), (''ax5'', 16)]
       [] ''int32'' OtherBody [example_res, shared_scale]"

definition shared_output :: tensor where
  "shared_output = ComputeOp 7 ''T_add'' ''broadcast''
       [(''ax0'', 1), (''ax1'', 4), (''ax2'', 16), (''ax3'', 16), (''ax4'', 1), (''ax5'', 16)]
       [] ''int32'' OtherBody [shared_product, shared_scale]"

definition pooled_output :: tensor where
  "pooled_output = ComputeOp 9 ''T_relu'' ''elemwise''
       [(''ax0'', 1), (''ax1'', 4), (''ax2'', 8), (''ax3'', 8), (''ax4'', 1), (''ax5'', 16)]
       [] ''int8'' OtherBody
       [ComputeOp 8 ''tensor'' ''pool''
          [(''ax0'', 1), (''ax1'', 4), (''ax2'', 8), (''ax3'', 8), (''ax4'', 1), (''ax5'', 16)]
          [(''rv0'', 2), (''rv1'', 2)] ''int8'' OtherBody [example_data]]"

text \<open>
  Two more graphs for the classifier: in \<open>folded_output\<close> the addition reads, beside the
  convolution, the operation \<open>folded_const\<close>, which is broadcast-tagged and has no axis;
  in \<open>two_conv_output\<close> the output adds the results of two convolutions.
\<close>

definition folded_const :: tensor where
  "folded_const = ComputeOp 7 ''scale'' ''broadcast'' [] [] ''int32'' OtherBody []"

definition folded_add :: tensor where
  "folded_add = ComputeOp 8 ''T_add'' ''broadcast''
       [(''ax0'', 1), (''ax1'', 4), (''ax2'', 16), (''ax3'', 16), (''ax4'', 1), (''ax5'', 16)]
       [] ''int32'' OtherBody [example_res, folded_const]"

definition folded_output :: tensor where
  "folded_output = ComputeOp 9 ''T_clip'' ''elemwise''
       [(''ax0'', 1), (''ax1'', 4), (''ax2'', 16), (''ax3'', 16), (''ax4'', 1), (''ax5'', 16)]
       [] ''int8'' OtherBody [folded_add]"

definition second_res :: tensor where
  "second_res = ComputeOp 7 ''res2'' ''conv2d_dense''
       [(''b_o'', 1), (''c_o'', 4), (''i'', 16), (''j'', 16), (''b_i'', 1), (''c_i'', 16)]
       [(''k_o'', 4), (''d_i'', 1), (''d_j'', 1), (''k_i'', 16)] ''int32''
       (Conv2dBody 1 1 ''int32'') [example_data, example_kernel]"

definition two_conv_output :: tensor where
  "two_conv_output = ComputeOp 8 ''T_add'' ''broadcast''
       [(''ax0'', 1), (''ax1'', 4), (''ax2'', 16), (''ax3'', 16), (''ax4'', 1), (''ax5'', 16)]
       [] ''int32'' OtherBody [example_res, second_res]"

text \<open>
  An activation and a kernel whose flop count does not fit in 64 bits: 4096 outer
  channels in and out, and a spatial extent of 1000003.
\<close>

definition huge_data :: tensor where
  "huge_data = PlaceholderOp 0 ''data'' [1, 4096, 1000003, 1000003, 1, 16] ''int8''"

definition huge_kernel :: tensor where
  "huge_kernel = PlaceholderOp 1 ''kernel'' [4096, 4096, 3, 3, 16, 16] ''int8''"

text \<open>A fused add of two float tensors with height and width 56.\<close>

definition float_output :: tensor where
  "float_output = ComputeOp 2 ''T_add'' ''broadcast''
       [(''ax0'', 1), (''ax1'', 4), (''ax2'', 56), (''ax3'', 56), (''ax4'', 1), (''ax5'', 16)]
       [] ''float32'' OtherBody
       [PlaceholderOp 0 ''lhs'' [1, 4, 56, 56, 1, 16] ''float32'',
        PlaceholderOp 1 ''rhs'' [1, 4, 56, 56, 1, 16] ''float32'']"

text \<open>A fused add of two int8 tensors with height and width 56.\<close>

definition int_add_output :: tensor where
  "int_add_output = ComputeOp 2 ''T_add'' ''broadcast''
       [(''ax0'', 1), (''ax1'', 4), (''ax2'', 56), (''ax3'', 56), (''ax4'', 1), (''ax5'', 16)]
       [] ''int8'' OtherBody
       [PlaceholderOp 0 ''lhs'' [1, 4, 56, 56, 1, 16] ''int8'',
        PlaceholderOp 1 ''rhs'' [1, 4, 56, 56, 1, 16] ''int8'']"

section \<open>Properties of the packed compute definition\<close>

lemma ebind_Inr [simp]: "ebind (Inr x) f = f x"
  by (simp add: ebind_def)

lemma ebind_Inl [simp]: "ebind (Inl e) f = Inl e"
  by (simp add: ebind_def)

lemma ebind_eq_Inr:
  "ebind m f = Inr y \<longleftrightarrow> (\<exists>x. m = Inr x \<and> f x = Inr y)"
  by (cases m) simp_all

lemma last_of_six: "length xs = 6 \<Longrightarrow> last xs = xs ! 5"
  by (cases xs rule: rev_cases) (simp_all add: nth_append)

lemma pad_shape:
  assumes "pad i data pb nm = Inr p"
  shows "length (shape p) = length (shape data)"
    and "k < length (shape data) \<Longrightarrow> shape p ! k = shape data ! k + 2 * pb ! k"
    and "input_tensors p = [data]" and "op_body p = PadBody pb pb"
  using assms by (auto simp: pad_def split: if_splits)

lemma digit_chars:
  "char_of (48::nat) = CHR ''0''" "char_of (49::nat) = CHR ''1''"
  "char_of (50::nat) = CHR ''2''" "char_of (51::nat) = CHR ''3''"
  "char_of (52::nat) = CHR ''4''" "char_of (53::nat) = CHR ''5''"
  by code_simp+

lemma wrap64_mod: "wrap64 x mod 2 ^ 64 = x mod 2 ^ 64"
proof -
  have "wrap64 x mod 2 ^ 64 = ((x + 2 ^ 63) mod 2 ^ 64 - 2 ^ 63) mod 2 ^ 64"
    by (simp add: wrap64_def)
  also have "\<dots> = (x + 2 ^ 63 - 2 ^ 63) mod 2 ^ 64"
    by (rule mod_diff_left_eq)
  finally show ?thesis
    by simp
qed

lemma wrap64_cong: "x mod 2 ^ 64 = y mod 2 ^ 64 \<Longrightarrow> wrap64 x = wrap64 y"
proof -
  assume "x mod 2 ^ 64 = y mod 2 ^ 64"
  then have "(x + 2 ^ 63) mod 2 ^ 64 = (y + 2 ^ 63) mod 2 ^ 64"
    by (rule mod_add_cong) simp
  then show ?thesis
    by (simp add: wrap64_def)
qed

lemma wrap64_mult_left: "wrap64 (wrap64 a * b) = wrap64 (a * b)"
  by (rule wrap64_cong, rule mod_mult_cong, rule wrap64_mod, rule refl)

lemma wrap64_exact: "- (2 ^ 63) \<le> x \<Longrightarrow> x < 2 ^ 63 \<Longrightarrow> wrap64 x = x"
  by (simp add: wrap64_def)

lemma wrap64_range: "- (2 ^ 63) \<le> wrap64 x \<and> wrap64 x < 2 ^ 63"
proof -
  have "0 \<le> (x + 2 ^ 63) mod 2 ^ 64" and "(x + 2 ^ 63) mod 2 ^ 64 < 2 ^ 64"
    by simp_all
  then show ?thesis
    by (simp add: wrap64_def)
qed

lemma np_prod_from:
  "fold (\<lambda>x a. mul64 a x) xs (wrap64 b) = wrap64 (b * prod_list xs)"
proof (induction xs arbitrary: b)
  case (Cons x xs)
  have "fold (\<lambda>x a. mul64 a x) (x # xs) (wrap64 b) =
      fold (\<lambda>x a. mul64 a x) xs (wrap64 (b * x))"
    by (simp add: mul64_def wrap64_mult_left)
  also have "\<dots> = wrap64 (b * x * prod_list xs)"
    by (rule Cons.IH)
  finally show ?case
    by (simp add: mult.assoc)
qed simp

lemma np_prod_wrap: "np_prod xs = wrap64 (prod_list xs)"
  using np_prod_from [of xs 1] by (simp add: np_prod_def wrap64_exact)

lemma flop_wrap:
  "mul64 (mul64 (mul64 (mul64 (mul64 2 (np_prod xs)) a) b) c) d =
     wrap64 (2 * prod_list xs * a * b * c * d)"
proof -
  have "mul64 2 (np_prod xs) = wrap64 (2 * prod_list xs)"
    using wrap64_mult_left [of "prod_list xs" 2]
    by (simp add: mul64_def np_prod_wrap mult.commute)
  then show ?thesis
    by (simp add: mul64_def wrap64_mult_left)
qed

lemma conv2d_packed_valid:
  assumes "is_packed_layout layout" "length (shape data) = 6" "length (shape kernel_t) = 6"
    "fst strides \<noteq> 0" "snd strides \<noteq> 0"
  shows "\<exists>res cfg' pad_data.
     conv2d_packed is_packed_layout cfg data kernel_t strides padding (1, 1) layout out_dtype
       = Inr (res, cfg')
     \<and> input_tensors res = [pad_data, kernel_t]
     \<and> (if fst padding \<noteq> 0
        then pad (Suc (max (max_id data) (max_id kernel_t))) data
               [0, 0, fst padding, snd padding, 0, 0] ''pad_data'' = Inr pad_data
        else pad_data = data)
     \<and> shape res = [shape data ! 0, shape kernel_t ! 0,
          (shape pad_data ! 2 - shape kernel_t ! 2) div fst strides + 1,
          (shape pad_data ! 3 - shape kernel_t ! 3) div snd strides + 1,
          shape data ! 4, shape kernel_t ! 4]
     \<and> flop cfg' = flop cfg + wrap64 (2 * prod_list (shape res) * shape kernel_t ! 2 *
          shape kernel_t ! 3 * shape data ! 1 * shape data ! 5)"
  using assms
  by (cases strides)
    (simp add: conv2d_packed_def pad_def floordiv_def Let_def add_flop_def last_of_six
      flop_wrap)


text \<open>
  The shape of the result of \<^verbatim>\<open>conv2d_packed\<close>. For rank-6 activation and kernel with
  constant shapes, non-zero strides and dilation (1,1), it is [activation outer batch,
  kernel outer channel, out_h, out_w, activation inner batch, kernel inner channel],
  where each spatial extent is floor((padded extent - kernel extent) / stride) + 1, the
  padded extent being that of the tensor the convolution reads. That tensor is the padded
  activation only when the height padding is not zero: then the extents are
  floor((in + 2 * pad - k) / stride) + 1; otherwise they are floor((in - k) / stride) + 1,
  whatever the width padding is.
\<close>

lemma conv2d_packed_output_shape:
  assumes "is_packed_layout layout"
    and "length (shape data) = 6" and "length (shape kernel_t) = 6"
    and "fst strides \<noteq> 0" and "snd strides \<noteq> 0"
  shows "\<exists>res cfg' pad_data.
     conv2d_packed is_packed_layout cfg data kernel_t strides padding (1, 1) layout out_dtype
       = Inr (res, cfg')
     \<and> input_tensors res = [pad_data, kernel_t]
     \<and> shape res = [shape data ! 0, shape kernel_t ! 0,
          (shape pad_data ! 2 - shape kernel_t ! 2) div fst strides + 1,
          (shape pad_data ! 3 - shape kernel_t ! 3) div snd strides + 1,
          shape data ! 4, shape kernel_t ! 4]
     \<and> (fst padding \<noteq> 0 \<longrightarrow>
          shape res = [shape data ! 0, shape kernel_t ! 0,
            (shape data ! 2 + 2 * fst padding - shape kernel_t ! 2) div fst strides + 1,
            (shape data ! 3 + 2 * snd padding - shape kernel_t ! 3) div snd strides + 1,
            shape data ! 4, shape kernel_t ! 4])
     \<and> (fst padding = 0 \<longrightarrow> pad_data = data
          \<and> shape res = [shape data ! 0, shape kernel_t ! 0,
            (shape data ! 2 - shape kernel_t ! 2) div fst strides + 1,
            (shape data ! 3 - shape kernel_t ! 3) div snd strides + 1,
            shape data ! 4, shape kernel_t ! 4])"
proof -
  from assms conv2d_packed_valid [of is_packed_layout layout data kernel_t strides cfg padding out_dtype]
  obtain res cfg' pad_data where
    run: "conv2d_packed is_packed_layout cfg data kernel_t strides padding (1, 1) layout
            out_dtype = Inr (res, cfg')"
    and ins: "input_tensors res = [pad_data, kernel_t]"
    and pd: "if fst padding \<noteq> 0
        then pad (Suc (max (max_id data) (max_id kernel_t))) data
               [0, 0, fst padding, snd padding, 0, 0] ''pad_data'' = Inr pad_data
        else pad_data = data"
    and sh: "shape res = [shape data ! 0, shape kernel_t ! 0,
          (shape pad_data ! 2 - shape kernel_t ! 2) div fst strides + 1,
          (shape pad_data ! 3 - shape kernel_t ! 3) div snd strides + 1,
          shape data ! 4, shape kernel_t ! 4]"
    by blast
  have padded: "shape pad_data ! 2 = shape data ! 2 + 2 * fst padding
      \<and> shape pad_data ! 3 = shape data ! 3 + 2 * snd padding" if "fst padding \<noteq> 0"
    using that pd pad_shape(2) [of _ data "[0, 0, fst padding, snd padding, 0, 0]" _ pad_data]
      assms(2) by simp
  have "pad_data = data" if "fst padding = 0"
    using that pd by simp
  with run ins sh padded show ?thesis
    by auto
qed

text \<open>
  Claim C1. The output extents are floor((in + 2 * pad - k) / stride) + 1 for every
  valid padding pair in the specification, but not in the code: with strides (1,1) and
  padding (0,1) on the example shapes the formula gives the width
  (16 + 2 * 1 - 3) div 1 + 1 = 16, and \<^verbatim>\<open>conv2d_packed\<close> returns a tensor of width 14,
  because the guard of line 39 looks at the height padding alone.
\<close>

theorem conv2d_packed_output_width_off_formula:
  "\<exists>res cfg'.
     conv2d_packed example_layout example_cfg example_data example_kernel (1, 1) (0, 1) (1, 1)
       ''NCHW1n16c'' ''int32'' = Inr (res, cfg')
     \<and> shape res ! 3 = 14
     \<and> (shape example_data ! 3 + 2 * snd (0, 1 :: int) - shape example_kernel ! 3)
          div snd (1, 1 :: int) + 1 = (16 :: int)
     \<and> shape res ! 2 = (shape example_data ! 2 + 2 * fst (0 :: int, 1) - shape example_kernel ! 2)
          div fst (1 :: int, 1) + 1"
  by (simp add: conv2d_packed_def example_layout_def example_data_def example_kernel_def
      floordiv_def Let_def)

text \<open>
  Claim C2. The guard of line 39 tests the height padding only. With padding (0,1) the
  pair is not zero, yet no pad node is inserted: the convolution reads the activation
  itself, and the output width is 14, not the 16 that a width padded by 1 on both sides
  gives.
\<close>

theorem conv2d_packed_width_padding_dropped:
  "\<exists>res cfg'.
     conv2d_packed example_layout example_cfg example_data example_kernel (1, 1) (0, 1) (1, 1)
       ''NCHW1n16c'' ''int32'' = Inr (res, cfg')
     \<and> input_tensors res = [example_data, example_kernel]
     \<and> shape example_data ! 3 = 16
     \<and> shape res = [1, 4, 14, 14, 1, 16]"
  by (simp add: conv2d_packed_def example_layout_def example_data_def example_kernel_def
      floordiv_def Let_def)

lemma example_packed_run:
  "\<exists>res cfg'.
     conv2d_packed example_layout example_cfg example_data example_kernel (1, 1) (1, 1) (1, 1)
       ''NCHW1n16c'' ''int32'' = Inr (res, cfg')
     \<and> shape res = [1, 4, 16, 16, 1, 16]
     \<and> flop cfg' = flop example_cfg + 18874368"
proof -
  from conv2d_packed_valid [of example_layout "''NCHW1n16c''" example_data example_kernel
      "(1, 1)" example_cfg "(1, 1)" "''int32''"]
  obtain res cfg' pad_data where
    run: "conv2d_packed example_layout example_cfg example_data example_kernel (1, 1) (1, 1)
        (1, 1) ''NCHW1n16c'' ''int32'' = Inr (res, cfg')"
    and pd: "pad (Suc (max (max_id example_data) (max_id example_kernel))) example_data
        [0, 0, 1, 1, 0, 0] ''pad_data'' = Inr pad_data"
    and sh: "shape res = [shape example_data ! 0, shape example_kernel ! 0,
          (shape pad_data ! 2 - shape example_kernel ! 2) div 1 + 1,
          (shape pad_data ! 3 - shape example_kernel ! 3) div 1 + 1,
          shape example_data ! 4, shape example_kernel ! 4]"
    and fl: "flop cfg' = flop example_cfg + wrap64 (2 * prod_list (shape res) *
          shape example_kernel ! 2 * shape example_kernel ! 3 * shape example_data ! 1 *
          shape example_data ! 5)"
    by (auto simp: example_layout_def example_data_def example_kernel_def)
  from pd have "shape pad_data = [1, 4, 18, 18, 1, 16]"
    by (auto simp: pad_def example_data_def)
  with sh have sh': "shape res = [1, 4, 16, 16, 1, 16]"
    by (simp add: example_data_def example_kernel_def)
  have product: "2 * prod_list (shape res) * shape example_kernel ! 2 *
      shape example_kernel ! 3 * shape example_data ! 1 * shape example_data ! 5 = 18874368"
    unfolding sh' by (simp add: example_data_def example_kernel_def)
  from fl [unfolded product] have "flop cfg' = flop example_cfg + 18874368"
    by (simp add: wrap64_def)
  with run sh' show ?thesis
    by blast
qed

lemma huge_packed_run:
  "\<exists>res cfg'.
     conv2d_packed example_layout example_cfg huge_data huge_kernel (1, 1) (0, 0) (1, 1)
       ''NCHW1n16c'' ''int32'' = Inr (res, cfg')
     \<and> shape res = [1, 4096, 1000001, 1000001, 1, 16]
     \<and> 2 * prod_list (shape res) * shape huge_kernel ! 2 * shape huge_kernel ! 3 *
         shape huge_data ! 1 * shape huge_data ! 5 = 77309565946899965411328
     \<and> flop cfg' = flop example_cfg - 738466016765411328"
proof -
  from conv2d_packed_valid [of example_layout "''NCHW1n16c''" huge_data huge_kernel
      "(1, 1)" example_cfg "(0, 0)" "''int32''"]
  obtain res cfg' where
    run: "conv2d_packed example_layout example_cfg huge_data huge_kernel (1, 1) (0, 0)
        (1, 1) ''NCHW1n16c'' ''int32'' = Inr (res, cfg')"
    and sh: "shape res = [shape huge_data ! 0, shape huge_kernel ! 0,
          (shape huge_data ! 2 - shape huge_kernel ! 2) div 1 + 1,
          (shape huge_data ! 3 - shape huge_kernel ! 3) div 1 + 1,
          shape huge_data ! 4, shape huge_kernel ! 4]"
    and fl: "flop cfg' = flop example_cfg + wrap64 (2 * prod_list (shape res) *
          shape huge_kernel ! 2 * shape huge_kernel ! 3 * shape huge_data ! 1 *
          shape huge_data ! 5)"
    by (auto simp: example_layout_def huge_data_def huge_kernel_def)
  from sh have sh': "shape res = [1, 4096, 1000001, 1000001, 1, 16]"
    by (simp add: huge_data_def huge_kernel_def)
  have product: "2 * prod_list (shape res) * shape huge_kernel ! 2 * shape huge_kernel ! 3 *
      shape huge_data ! 1 * shape huge_data ! 5 = 77309565946899965411328"
    unfolding sh' by (simp add: huge_data_def huge_kernel_def)
  from fl [unfolded product] have "flop cfg' = flop example_cfg - 738466016765411328"
    by (simp add: wrap64_def)
  with run sh' product show ?thesis
    by blast
qed

text \<open>
  Claim C3, as stated, fails twice. The flop count recorded for the end-to-end example
  is not 226,492,416. And the count is not the exact product for every valid invocation:
  for the activation \<open>huge_data\<close> and the kernel \<open>huge_kernel\<close> the product
  2 * output volume * 3 * 3 * 4096 * 16 is 77309565946899965411328, which 64 bits cannot
  hold, and the count recorded is another number.
\<close>

theorem conv2d_packed_flop_example_counterexample:
  "\<not> (\<exists>res cfg'.
     conv2d_packed example_layout example_cfg example_data example_kernel (1, 1) (1, 1) (1, 1)
       ''NCHW1n16c'' ''int32'' = Inr (res, cfg')
     \<and> flop cfg' = flop example_cfg + 226492416)
   \<and> (\<exists>res cfg'.
     conv2d_packed example_layout example_cfg huge_data huge_kernel (1, 1) (0, 0) (1, 1)
       ''NCHW1n16c'' ''int32'' = Inr (res, cfg')
     \<and> 2 * prod_list (shape res) * shape huge_kernel ! 2 * shape huge_kernel ! 3 *
         shape huge_data ! 1 * shape huge_data ! 5 = 77309565946899965411328
     \<and> flop cfg' = flop example_cfg - 738466016765411328
     \<and> flop cfg' \<noteq> flop example_cfg + 2 * prod_list (shape res) * shape huge_kernel ! 2 *
         shape huge_kernel ! 3 * shape huge_data ! 1 * shape huge_data ! 5)"
proof (intro conjI)
  from example_packed_run
  show "\<not> (\<exists>res cfg'.
     conv2d_packed example_layout example_cfg example_data example_kernel (1, 1) (1, 1) (1, 1)
       ''NCHW1n16c'' ''int32'' = Inr (res, cfg')
     \<and> flop cfg' = flop example_cfg + 226492416)"
    by auto
next
  from huge_packed_run obtain res cfg' where
    run: "conv2d_packed example_layout example_cfg huge_data huge_kernel (1, 1) (0, 0) (1, 1)
       ''NCHW1n16c'' ''int32'' = Inr (res, cfg')"
    and product: "2 * prod_list (shape res) * shape huge_kernel ! 2 * shape huge_kernel ! 3 *
         shape huge_data ! 1 * shape huge_data ! 5 = 77309565946899965411328"
    and fl: "flop cfg' = flop example_cfg - 738466016765411328"
    by blast
  from fl have neq: "flop cfg' \<noteq> flop example_cfg + 2 * prod_list (shape res) *
      shape huge_kernel ! 2 * shape huge_kernel ! 3 * shape huge_data ! 1 * shape huge_data ! 5"
    unfolding product by simp
  show "\<exists>res cfg'.
     conv2d_packed example_layout example_cfg huge_data huge_kernel (1, 1) (0, 0) (1, 1)
       ''NCHW1n16c'' ''int32'' = Inr (res, cfg')
     \<and> 2 * prod_list (shape res) * shape huge_kernel ! 2 * shape huge_kernel ! 3 *
         shape huge_data ! 1 * shape huge_data ! 5 = 77309565946899965411328
     \<and> flop cfg' = flop example_cfg - 738466016765411328
     \<and> flop cfg' \<noteq> flop example_cfg + 2 * prod_list (shape res) * shape huge_kernel ! 2 *
         shape huge_kernel ! 3 * shape huge_data ! 1 * shape huge_data ! 5"
    by (rule exI [of _ res], rule exI [of _ cfg'], intro conjI) (rule run product fl neq)+
qed

text \<open>
  Claim C3, amended. Every valid invocation adds to the flop count of the configuration
  the product 2 * output volume * kernel height * kernel width * input outer channel *
  input inner channel as 64-bit arithmetic yields it: the value of the product in the
  signed 64-bit range, which is the product itself exactly when the product lies in that
  range. For the end-to-end example the count added is 18,874,368 and the output shape
  is [1,4,16,16,1,16].
\<close>

theorem conv2d_packed_flop:
  assumes "is_packed_layout layout"
    and "length (shape data) = 6" and "length (shape kernel_t) = 6"
    and "fst strides \<noteq> 0" and "snd strides \<noteq> 0"
  shows "(\<exists>res cfg' product.
     conv2d_packed is_packed_layout cfg data kernel_t strides padding (1, 1) layout out_dtype
       = Inr (res, cfg')
     \<and> product = 2 * prod_list (shape res) * shape kernel_t ! 2 *
          shape kernel_t ! 3 * shape data ! 1 * shape data ! 5
     \<and> flop cfg' = flop cfg + wrap64 product
     \<and> wrap64 product mod 2 ^ 64 = product mod 2 ^ 64
     \<and> - (2 ^ 63) \<le> wrap64 product \<and> wrap64 product < 2 ^ 63
     \<and> ((- (2 ^ 63) \<le> product \<and> product < 2 ^ 63) = (flop cfg' = flop cfg + product)))
   \<and> (\<exists>res cfg'.
     conv2d_packed example_layout example_cfg example_data example_kernel (1, 1) (1, 1) (1, 1)
       ''NCHW1n16c'' ''int32'' = Inr (res, cfg')
     \<and> flop cfg' = flop example_cfg + 18874368
     \<and> shape res = [1, 4, 16, 16, 1, 16])"
proof
  from assms conv2d_packed_valid [of is_packed_layout layout data kernel_t strides cfg padding out_dtype]
  obtain res cfg' where
    run: "conv2d_packed is_packed_layout cfg data kernel_t strides padding (1, 1) layout
            out_dtype = Inr (res, cfg')"
    and fl: "flop cfg' = flop cfg + wrap64 (2 * prod_list (shape res) * shape kernel_t ! 2 *
          shape kernel_t ! 3 * shape data ! 1 * shape data ! 5)"
    by blast
  define product where "product = 2 * prod_list (shape res) * shape kernel_t ! 2 *
          shape kernel_t ! 3 * shape data ! 1 * shape data ! 5"
  have exact: "(- (2 ^ 63) \<le> product \<and> product < 2 ^ 63) = (flop cfg' = flop cfg + product)"
    using wrap64_exact [of product] wrap64_range [of product] fl
    by (auto simp: product_def)
  from run fl wrap64_mod [of product] wrap64_range [of product] exact
  show "\<exists>res cfg' product.
     conv2d_packed is_packed_layout cfg data kernel_t strides padding (1, 1) layout out_dtype
       = Inr (res, cfg')
     \<and> product = 2 * prod_list (shape res) * shape kernel_t ! 2 *
          shape kernel_t ! 3 * shape data ! 1 * shape data ! 5
     \<and> flop cfg' = flop cfg + wrap64 product
     \<and> wrap64 product mod 2 ^ 64 = product mod 2 ^ 64
     \<and> - (2 ^ 63) \<le> wrap64 product \<and> wrap64 product < 2 ^ 63
     \<and> ((- (2 ^ 63) \<le> product \<and> product < 2 ^ 63) = (flop cfg' = flop cfg + product))"
    unfolding product_def by blast
next
  show "\<exists>res cfg'.
     conv2d_packed example_layout example_cfg example_data example_kernel (1, 1) (1, 1) (1, 1)
       ''NCHW1n16c'' ''int32'' = Inr (res, cfg')
     \<and> flop cfg' = flop example_cfg + 18874368
     \<and> shape res = [1, 4, 16, 16, 1, 16]"
    using example_packed_run by blast
qed

lemma example_strided:
  "\<exists>cfg'. conv2d_packed example_layout example_cfg example_data example_kernel (2, 2) (1, 1)
     (1, 1) ''NCHW1n16c'' ''int32'' =
     Inr (ComputeOp 3 ''res'' ''conv2d_dense''
       [(''b_o'', 1), (''c_o'', 4), (''i'', 8), (''j'', 8), (''b_i'', 1), (''c_i'', 16)]
       [(''k_o'', 4), (''d_i'', 3), (''d_j'', 3), (''k_i'', 16)] ''int32''
       (Conv2dBody 2 2 ''int32'') [example_pad, example_kernel], cfg')"
  by (simp add: conv2d_packed_def example_layout_def example_data_def example_kernel_def
      example_pad_def floordiv_def Let_def pad_def digit_chars)

theorem conv2d_packed_flop_witness:
  "\<exists>res cfg'.
     conv2d_packed example_layout example_cfg example_data example_kernel (2, 2) (1, 1) (1, 1)
       ''NCHW1n16c'' ''int32'' = Inr (res, cfg')
     \<and> shape res = [1, 4, 8, 8, 1, 16]
     \<and> flop cfg' = 4718592"
proof -
  from conv2d_packed_flop [of example_layout "''NCHW1n16c''" example_data
      example_kernel "(2, 2)" example_cfg "(1, 1)" "''int32''"]
  obtain res cfg' where
    run: "conv2d_packed example_layout example_cfg example_data example_kernel (2, 2) (1, 1)
        (1, 1) ''NCHW1n16c'' ''int32'' = Inr (res, cfg')"
    and exact: "(- (2 ^ 63) \<le> 2 * prod_list (shape res) * shape example_kernel ! 2 *
          shape example_kernel ! 3 * shape example_data ! 1 * shape example_data ! 5
        \<and> 2 * prod_list (shape res) * shape example_kernel ! 2 *
          shape example_kernel ! 3 * shape example_data ! 1 * shape example_data ! 5 < 2 ^ 63)
      = (flop cfg' = flop example_cfg + 2 * prod_list (shape res) * shape example_kernel ! 2 *
          shape example_kernel ! 3 * shape example_data ! 1 * shape example_data ! 5)"
    by (auto simp: example_layout_def example_data_def example_kernel_def)
  from example_strided run have sh: "shape res = [1, 4, 8, 8, 1, 16]"
    by auto
  from exact have "flop cfg' = 4718592"
    unfolding sh by (simp add: example_data_def example_kernel_def example_cfg_def)
  with run sh show ?thesis
    by blast
qed


section \<open>Properties of the graph classifier\<close>

lemma traverse_classes:
  "traverse isb out x c = Inr c' \<Longrightarrow>
     const_ops c' = const_ops c @
       filter (\<lambda>n. isb (tag n) \<and> n \<noteq> out \<and> axis n = Inr []) (visits isb x)
   \<and> ewise_ops c' = ewise_ops c @
       filter (\<lambda>n. isb (tag n) \<and> n \<noteq> out \<and> axis n \<noteq> Inr []) (visits isb x)
   \<and> conv2d_res c' = conv2d_res c @ filter (\<lambda>n. \<not> isb (tag n)) (visits isb x)
   \<and> list_all (\<lambda>n. \<not> isb (tag n) \<longrightarrow> tag n = ''conv2d_dense'') (visits isb x)"
  and traverse_inputs_classes:
  "traverse_inputs isb out x ts c = Inr c' \<Longrightarrow>
     const_ops c' = const_ops c @
       filter (\<lambda>n. isb (tag n) \<and> n \<noteq> out \<and> axis n = Inr [])
         (concat (map (visits isb) (filter (\<lambda>t. \<not> is_PlaceholderOp t) ts)))
   \<and> ewise_ops c' = ewise_ops c @
       filter (\<lambda>n. isb (tag n) \<and> n \<noteq> out \<and> axis n \<noteq> Inr [])
         (concat (map (visits isb) (filter (\<lambda>t. \<not> is_PlaceholderOp t) ts)))
   \<and> conv2d_res c' = conv2d_res c @ filter (\<lambda>n. \<not> isb (tag n))
         (concat (map (visits isb) (filter (\<lambda>t. \<not> is_PlaceholderOp t) ts)))
   \<and> list_all (\<lambda>n. \<not> isb (tag n) \<longrightarrow> tag n = ''conv2d_dense'')
         (concat (map (visits isb) (filter (\<lambda>t. \<not> is_PlaceholderOp t) ts)))"
proof (induction isb out x c and isb out x ts c arbitrary: c' and c'
    rule: traverse_traverse_inputs.induct)
  case (1 isb out x c)
  show ?case
  proof (cases "isb (tag x)")
    case False
    with "1.prems" show ?thesis
      by (auto simp: traverse.simps visits.simps [of isb x]
          split: if_splits)
  next
    case True
    show ?thesis
    proof (cases "x = out")
      case same: True
      with True "1.prems" have run: "traverse_inputs isb out x (input_tensors x) c = Inr c'"
        by (simp add: traverse.simps same_as_def)
      have "(if \<not> same_as x out
             then case axis x of Inl e \<Rightarrow> Inl e
               | Inr ax \<Rightarrow> if ax = [] then Inr (c\<lparr>const_ops := const_ops c @ [x]\<rparr>)
                          else Inr (c\<lparr>ewise_ops := ewise_ops c @ [x]\<rparr>)
             else Inr c) = Inr c"
        using same by (simp add: same_as_def)
      from "1.IH" [OF True this run] same True show ?thesis
        by (simp add: visits.simps [of isb out])
    next
      case other: False
      with True "1.prems" obtain ax c1 where ax: "axis x = Inr ax"
        and c1: "c1 = (if ax = [] then c\<lparr>const_ops := const_ops c @ [x]\<rparr>
                       else c\<lparr>ewise_ops := ewise_ops c @ [x]\<rparr>)"
        and run: "traverse_inputs isb out x (input_tensors x) c1 = Inr c'"
        by (auto simp: traverse.simps same_as_def
            split: sum.splits if_splits)
      have "(if \<not> same_as x out
             then case axis x of Inl e \<Rightarrow> Inl e
               | Inr ax \<Rightarrow> if ax = [] then Inr (c\<lparr>const_ops := const_ops c @ [x]\<rparr>)
                          else Inr (c\<lparr>ewise_ops := ewise_ops c @ [x]\<rparr>)
             else Inr c) = Inr c1"
        using other ax c1 by (simp add: same_as_def)
      from "1.IH" [OF True this run] other True ax c1 show ?thesis
        by (simp add: visits.simps [of isb x])
    qed
  qed
next
  case (2 isb out x c)
  then show ?case
    by (simp add: traverse.simps)
next
  case (3 isb out x t ts c)
  show ?case
  proof (cases "is_PlaceholderOp t")
    case True
    with "3.prems" have
      run: "traverse_inputs isb out x ts (c\<lparr>ewise_inputs := ewise_inputs c @ [(x, t)]\<rparr>) = Inr c'"
      by (simp add: traverse.simps)
    have "(if is_PlaceholderOp t then Inr (c\<lparr>ewise_inputs := ewise_inputs c @ [(x, t)]\<rparr>)
           else traverse isb out t c) = Inr (c\<lparr>ewise_inputs := ewise_inputs c @ [(x, t)]\<rparr>)"
      using True by simp
    from "3.IH"(2) [OF this run] True show ?thesis
      by simp
  next
    case False
    with "3.prems" obtain c1 where t: "traverse isb out t c = Inr c1"
      and run: "traverse_inputs isb out x ts c1 = Inr c'"
      by (auto simp: traverse.simps split: sum.splits)
    have "(if is_PlaceholderOp t then Inr (c\<lparr>ewise_inputs := ewise_inputs c @ [(x, t)]\<rparr>)
           else traverse isb out t c) = Inr c1"
      using False t by simp
    from "3.IH"(1) [OF False t] "3.IH"(2) [OF this run] False show ?thesis
      by simp
  qed
qed


lemma traverse_error:
  "traverse isb out x c = Inl e \<Longrightarrow> x = out \<or> \<not> is_PlaceholderOp x \<Longrightarrow> e = AssertionError"
  and traverse_inputs_error:
  "traverse_inputs isb out x ts c = Inl e \<Longrightarrow> e = AssertionError"
proof (induction isb out x c and isb out x ts c rule: traverse_traverse_inputs.induct)
  case (1 isb out x c)
  show ?case
  proof (cases "isb (tag x)")
    case False
    with "1.prems" show ?thesis
      by (simp add: traverse.simps split: if_splits)
  next
    case True
    have ax: "x \<noteq> out \<Longrightarrow> \<exists>ax. axis x = Inr ax"
      using "1.prems"(2) by (cases x) simp_all
    then have "\<exists>c1. (if \<not> same_as x out
             then case axis x of Inl e \<Rightarrow> Inl e
               | Inr ax \<Rightarrow> if ax = [] then Inr (c\<lparr>const_ops := const_ops c @ [x]\<rparr>)
                          else Inr (c\<lparr>ewise_ops := ewise_ops c @ [x]\<rparr>)
             else Inr c) = Inr c1"
      by (cases "x = out") (auto simp: same_as_def)
    then obtain c1 where c1: "(if \<not> same_as x out
             then case axis x of Inl e \<Rightarrow> Inl e
               | Inr ax \<Rightarrow> if ax = [] then Inr (c\<lparr>const_ops := const_ops c @ [x]\<rparr>)
                          else Inr (c\<lparr>ewise_ops := ewise_ops c @ [x]\<rparr>)
             else Inr c) = Inr c1"
      by blast
    with True "1.prems"(1) have "traverse_inputs isb out x (input_tensors x) c1 = Inl e"
      by (simp add: traverse.simps)
    from "1.IH" [OF True c1 this] show ?thesis .
  qed
next
  case (2 isb out x c)
  then show ?case
    by (simp add: traverse.simps)
next
  case (3 isb out x t ts c)
  show ?case
  proof (cases "is_PlaceholderOp t")
    case True
    have c1: "(if is_PlaceholderOp t then Inr (c\<lparr>ewise_inputs := ewise_inputs c @ [(x, t)]\<rparr>)
           else traverse isb out t c) = Inr (c\<lparr>ewise_inputs := ewise_inputs c @ [(x, t)]\<rparr>)"
      using True by simp
    with "3.prems" have
      "traverse_inputs isb out x ts (c\<lparr>ewise_inputs := ewise_inputs c @ [(x, t)]\<rparr>) = Inl e"
      by (simp add: traverse.simps)
    from "3.IH"(2) [OF c1 this] show ?thesis .
  next
    case False
    show ?thesis
    proof (cases "traverse isb out t c")
      case (Inl e')
      with False "3.prems" have "e' = e"
        by (simp add: traverse.simps)
      with "3.IH"(1) [OF False] Inl False show ?thesis
        by simp
    next
      case (Inr c1)
      then have c1: "(if is_PlaceholderOp t
           then Inr (c\<lparr>ewise_inputs := ewise_inputs c @ [(x, t)]\<rparr>)
           else traverse isb out t c) = Inr c1"
        using False by simp
      with "3.prems" have "traverse_inputs isb out x ts c1 = Inl e"
        by (simp add: traverse.simps)
      from "3.IH"(2) [OF c1 this] show ?thesis .
    qed
  qed
qed

lemma count_list_filter:
  "count_list (filter P xs) n = (if P n then count_list xs n else 0)"
  by (induction xs) auto

lemma count_list_concat:
  "count_list (concat xss) n = sum_list (map (\<lambda>xs. count_list xs n) xss)"
  by (induction xss) auto

lemma sum_list_count_concat:
  "sum_list (map (\<lambda>t. (if n = t then 1 else 0) + sum_list (map k (g t))) ts) =
     count_list ts n + sum_list (map k (concat (map g ts)))"
  by (induction ts) auto

lemma visits_count:
  "count_list (visits isb x) n =
     (if n = x then 1 else 0) +
     sum_list (map (\<lambda>m. if isb (tag m)
                          then count_list (filter (\<lambda>t. \<not> is_PlaceholderOp t) (input_tensors m)) n
                          else 0) (visits isb x))"
proof (induction isb x rule: visits.induct)
  case (1 isb x)
  let ?k = "\<lambda>m. if isb (tag m)
      then count_list (filter (\<lambda>t. \<not> is_PlaceholderOp t) (input_tensors m)) n else 0"
  show ?case
  proof (cases "isb (tag x)")
    case False
    then show ?thesis
      by (simp add: visits.simps [of isb x])
  next
    case True
    let ?ts = "filter (\<lambda>t. \<not> is_PlaceholderOp t) (input_tensors x)"
    have each: "count_list (visits isb t) n =
        (if n = t then 1 else 0) + sum_list (map ?k (visits isb t))" if "t \<in> set ?ts" for t
      using "1.IH" [OF True that] .
    have "sum_list (map (\<lambda>t. count_list (visits isb t) n) ?ts) =
        sum_list (map (\<lambda>t. (if n = t then 1 else 0) + sum_list (map ?k (visits isb t))) ?ts)"
      by (rule arg_cong [where f = sum_list], rule map_cong [OF refl]) (use each in simp)
    also have "\<dots> = count_list ?ts n + sum_list (map ?k (concat (map (visits isb) ?ts)))"
      by (rule sum_list_count_concat)
    finally have inputs: "sum_list (map (\<lambda>t. count_list (visits isb t) n) ?ts) =
        count_list ?ts n + sum_list (map ?k (concat (map (visits isb) ?ts)))" .
    have v: "visits isb x = x # concat (map (visits isb) ?ts)"
      using True by (simp add: visits.simps [of isb x])
    have lhs: "count_list (visits isb x) n =
        (if n = x then 1 else 0) + sum_list (map (\<lambda>t. count_list (visits isb t) n) ?ts)"
      unfolding v by (simp add: count_list_concat comp_def)
    have rhs: "sum_list (map ?k (visits isb x)) =
        count_list ?ts n + sum_list (map ?k (concat (map (visits isb) ?ts)))"
      unfolding v using True by simp
    show ?thesis
      unfolding lhs rhs inputs by simp
  qed
qed

lemma example_is_broadcast_simps [simp]:
  "example_is_broadcast ''elemwise''" "example_is_broadcast ''broadcast''"
  "\<not> example_is_broadcast ''conv2d_dense''" "\<not> example_is_broadcast ''injective,pad''"
  "\<not> example_is_broadcast []"
  by (simp_all add: example_is_broadcast_def)

lemma example_tags [simp]:
  "tag example_output = ''elemwise''" "tag example_add = ''broadcast''"
  "tag example_res = ''conv2d_dense''" "tag example_bias = []"
  "tag shared_output = ''broadcast''" "tag shared_product = ''broadcast''"
  "tag shared_scale = ''elemwise''"
  by (simp_all add: example_output_def example_add_def example_res_def example_bias_def
      shared_output_def shared_product_def shared_scale_def)

lemma example_inputs [simp]:
  "input_tensors example_output = [example_add]"
  "input_tensors example_add = [example_res, example_bias]"
  "input_tensors shared_output = [shared_product, shared_scale]"
  "input_tensors shared_product = [example_res, shared_scale]"
  "input_tensors shared_scale = [example_bias]"
  by (simp_all add: example_output_def example_add_def shared_output_def shared_product_def
      shared_scale_def)

lemma example_kinds [simp]:
  "is_PlaceholderOp example_bias" "\<not> is_PlaceholderOp example_res"
  "\<not> is_PlaceholderOp example_add" "\<not> is_PlaceholderOp example_output"
  "\<not> is_PlaceholderOp shared_scale" "\<not> is_PlaceholderOp shared_product"
  "\<not> is_PlaceholderOp shared_output"
  by (simp_all add: example_output_def example_add_def example_res_def example_bias_def
      shared_output_def shared_product_def shared_scale_def)

lemma example_distinct [simp]:
  "example_add \<noteq> example_output" "example_res \<noteq> example_output"
  "example_res \<noteq> example_add"
  "shared_scale \<noteq> shared_output" "shared_product \<noteq> shared_output"
  "shared_scale \<noteq> shared_product" "example_res \<noteq> shared_scale"
  "example_res \<noteq> shared_product" "example_res \<noteq> shared_output"
  "shared_output \<noteq> shared_scale" "shared_output \<noteq> shared_product"
  "shared_product \<noteq> shared_scale" "shared_scale \<noteq> example_res"
  "shared_product \<noteq> example_res" "shared_output \<noteq> example_res"
  "example_output \<noteq> example_add" "example_output \<noteq> example_res"
  "example_add \<noteq> example_res"
  by (simp_all add: example_output_def example_add_def example_res_def
      shared_output_def shared_product_def shared_scale_def)

lemma example_axes [simp]:
  "axis example_add = Inr [IterVar DataPar ''ax0'' 1, IterVar DataPar ''ax1'' 4,
     IterVar DataPar ''ax2'' 16, IterVar DataPar ''ax3'' 16, IterVar DataPar ''ax4'' 1,
     IterVar DataPar ''ax5'' 16]"
  "axis shared_scale = Inr [IterVar DataPar ''ax0'' 1, IterVar DataPar ''ax1'' 4,
     IterVar DataPar ''ax2'' 1, IterVar DataPar ''ax3'' 1, IterVar DataPar ''ax4'' 1,
     IterVar DataPar ''ax5'' 16]"
  "axis shared_product = Inr [IterVar DataPar ''ax0'' 1, IterVar DataPar ''ax1'' 4,
     IterVar DataPar ''ax2'' 16, IterVar DataPar ''ax3'' 16, IterVar DataPar ''ax4'' 1,
     IterVar DataPar ''ax5'' 16]"
  by (simp_all add: example_add_def shared_product_def shared_scale_def)

lemma example_dtypes [simp]:
  "dtype example_add = ''int32''" "dtype shared_product = ''int32''"
  "dtype shared_scale = ''int32''" "dtype example_bias = ''int32''"
  "dtype example_res = ''int32''" "dtype example_output = ''int8''"
  "dtype shared_output = ''int32''"
  by (simp_all add: example_add_def shared_product_def shared_scale_def example_bias_def
      example_res_def example_output_def shared_output_def)

lemma example_visits:
  "visits example_is_broadcast example_output = [example_output, example_add, example_res]"
  by (simp add: visits.simps)

lemma shared_visits:
  "visits example_is_broadcast shared_output =
     [shared_output, shared_product, example_res, shared_scale, shared_scale]"
  by (simp add: visits.simps)

lemma example_traverse:
  "traverse example_is_broadcast example_output example_output no_classes =
     Inr \<lparr>const_ops = [], ewise_inputs = [(example_add, example_bias)],
          ewise_ops = [example_add], conv2d_res = [example_res]\<rparr>"
  by (simp add: traverse.simps same_as_def no_classes_def)

lemma shared_traverse:
  "traverse example_is_broadcast shared_output shared_output no_classes =
     Inr \<lparr>const_ops = [],
          ewise_inputs = [(shared_scale, example_bias), (shared_scale, example_bias)],
          ewise_ops = [shared_product, shared_scale, shared_scale],
          conv2d_res = [example_res]\<rparr>"
  by (simp add: traverse.simps same_as_def no_classes_def)


lemma classify_fails:
  assumes "classify is_broadcast outs = Inl e"
  shows "schedule_conv2d_packed env is_broadcast cfg outs = Inl e"
  using assms by (simp add: schedule_conv2d_packed_def schedule_conv2d_packed_tiled_def)

lemma traverse_fails:
  "traverse isb out x c = Inl e \<Longrightarrow> x = out \<or> \<not> is_PlaceholderOp x \<Longrightarrow>
     \<exists>n \<in> set (visits isb x). \<not> isb (tag n) \<and> tag n \<noteq> ''conv2d_dense''"
  and traverse_inputs_fails:
  "traverse_inputs isb out x ts c = Inl e \<Longrightarrow>
     \<exists>n \<in> set (concat (map (visits isb) (filter (\<lambda>t. \<not> is_PlaceholderOp t) ts))).
        \<not> isb (tag n) \<and> tag n \<noteq> ''conv2d_dense''"
proof (induction isb out x c and isb out x ts c rule: traverse_traverse_inputs.induct)
  case (1 isb out x c)
  show ?case
  proof (cases "isb (tag x)")
    case False
    with "1.prems" have "tag x \<noteq> ''conv2d_dense''"
      by (simp add: traverse.simps split: if_splits)
    with False show ?thesis
      by (subst visits.simps) simp
  next
    case True
    have ax: "x \<noteq> out \<Longrightarrow> \<exists>ax. axis x = Inr ax"
      using "1.prems"(2) by (cases x) simp_all
    then have "\<exists>c1. (if \<not> same_as x out
             then case axis x of Inl e \<Rightarrow> Inl e
               | Inr ax \<Rightarrow> if ax = [] then Inr (c\<lparr>const_ops := const_ops c @ [x]\<rparr>)
                          else Inr (c\<lparr>ewise_ops := ewise_ops c @ [x]\<rparr>)
             else Inr c) = Inr c1"
      by (cases "x = out") (auto simp: same_as_def)
    then obtain c1 where c1: "(if \<not> same_as x out
             then case axis x of Inl e \<Rightarrow> Inl e
               | Inr ax \<Rightarrow> if ax = [] then Inr (c\<lparr>const_ops := const_ops c @ [x]\<rparr>)
                          else Inr (c\<lparr>ewise_ops := ewise_ops c @ [x]\<rparr>)
             else Inr c) = Inr c1"
      by blast
    with True "1.prems"(1) have "traverse_inputs isb out x (input_tensors x) c1 = Inl e"
      by (simp add: traverse.simps)
    from "1.IH" [OF True c1 this] True show ?thesis
      by (subst visits.simps) simp
  qed
next
  case (2 isb out x c)
  then show ?case
    by (simp add: traverse.simps)
next
  case (3 isb out x t ts c)
  show ?case
  proof (cases "is_PlaceholderOp t")
    case True
    have c1: "(if is_PlaceholderOp t then Inr (c\<lparr>ewise_inputs := ewise_inputs c @ [(x, t)]\<rparr>)
           else traverse isb out t c) = Inr (c\<lparr>ewise_inputs := ewise_inputs c @ [(x, t)]\<rparr>)"
      using True by simp
    with "3.prems" have
      "traverse_inputs isb out x ts (c\<lparr>ewise_inputs := ewise_inputs c @ [(x, t)]\<rparr>) = Inl e"
      by (simp add: traverse.simps)
    from "3.IH"(2) [OF c1 this] True show ?thesis
      by simp
  next
    case False
    show ?thesis
    proof (cases "traverse isb out t c")
      case (Inl e')
      with False "3.prems" have "e' = e"
        by (simp add: traverse.simps)
      with "3.IH"(1) [OF False] Inl False show ?thesis
        by auto
    next
      case (Inr c1)
      then have c1: "(if is_PlaceholderOp t
           then Inr (c\<lparr>ewise_inputs := ewise_inputs c @ [(x, t)]\<rparr>)
           else traverse isb out t c) = Inr c1"
        using False by simp
      with "3.prems" have "traverse_inputs isb out x ts c1 = Inl e"
        by (simp add: traverse.simps)
      from "3.IH"(2) [OF c1 this] show ?thesis
        by auto
    qed
  qed
qed

lemma classify_not_Inr:
  assumes "traverse is_broadcast output output no_classes = Inl e"
  shows "\<exists>e'. classify is_broadcast [output] = Inl e'"
  using assms by (cases "input_tensors output") (simp_all add: classify_def)

lemma count_list_pos: "0 < count_list xs x \<longleftrightarrow> x \<in> set xs"
  by (induction xs) auto

lemma sum_list_pos:
  fixes g :: "'a \<Rightarrow> nat"
  shows "0 < sum_list (map g xs) \<longleftrightarrow> (\<exists>m \<in> set xs. 0 < g m)"
  by (induction xs) auto

lemma visited_iff:
  "n \<in> set (visits is_broadcast output) \<longleftrightarrow>
     n = output \<or> (\<exists>m \<in> set (visits is_broadcast output). is_broadcast (tag m)
        \<and> n \<in> set (input_tensors m) \<and> \<not> is_PlaceholderOp n)"
proof -
  let ?V = "visits is_broadcast output"
  let ?g = "\<lambda>m. if is_broadcast (tag m)
      then count_list (filter (\<lambda>t. \<not> is_PlaceholderOp t) (input_tensors m)) n else 0"
  have "n \<in> set ?V \<longleftrightarrow> 0 < count_list ?V n"
    by (simp only: count_list_pos)
  also have "\<dots> \<longleftrightarrow> n = output \<or> 0 < sum_list (map ?g ?V)"
    by (subst visits_count) auto
  also have "0 < sum_list (map ?g ?V) \<longleftrightarrow> (\<exists>m \<in> set ?V. 0 < ?g m)"
    by (rule sum_list_pos)
  also have "\<dots> \<longleftrightarrow> (\<exists>m \<in> set ?V. is_broadcast (tag m)
        \<and> n \<in> set (input_tensors m) \<and> \<not> is_PlaceholderOp n)"
    by (auto simp: count_list_pos split: if_splits)
  finally show ?thesis .
qed

text \<open>
  Claim C4, amended. The traversal visits the output and, through broadcast-tagged
  operations only, their computed inputs; an operation below one that is not
  broadcast-tagged is reachable but is not visited. The traversal succeeds exactly when
  every visited operation that is not broadcast-tagged carries the tag \<^verbatim>\<open>conv2d_dense\<close>,
  and fails with the assertion of line 94 otherwise. When it succeeds, \<open>const_ops\<close> holds
  the visited broadcast-tagged operations other than the output that have no axes,
  \<open>ewise_ops\<close> those that have axes and \<open>conv2d_res\<close> the visited operations that are not
  broadcast-tagged, so that every visited operation other than the output is in exactly
  one list. When the number of convolutions visited is not one,
  \<^verbatim>\<open>schedule_conv2d_packed\<close> fails, with an assertion error (the specification's
  \<^verbatim>\<open>MalformedGraph\<close>) if the output has an input.
\<close>

theorem classifier_partition:
  "(n \<in> set (visits is_broadcast output) \<longleftrightarrow>
      n = output \<or> (\<exists>m \<in> set (visits is_broadcast output). is_broadcast (tag m)
        \<and> n \<in> set (input_tensors m) \<and> \<not> is_PlaceholderOp n))
   \<and> (list_all (\<lambda>n. \<not> is_broadcast (tag n) \<longrightarrow> tag n = ''conv2d_dense'')
         (visits is_broadcast output) \<longrightarrow>
      (\<exists>c. traverse is_broadcast output output no_classes = Inr c
         \<and> const_ops c = filter (\<lambda>n. is_broadcast (tag n) \<and> n \<noteq> output \<and> axis n = Inr [])
             (visits is_broadcast output)
         \<and> ewise_ops c = filter (\<lambda>n. is_broadcast (tag n) \<and> n \<noteq> output \<and> axis n \<noteq> Inr [])
             (visits is_broadcast output)
         \<and> conv2d_res c = filter (\<lambda>n. \<not> is_broadcast (tag n)) (visits is_broadcast output)
         \<and> (\<forall>n \<in> set (visits is_broadcast output).
              (is_broadcast (tag n) \<and> n \<noteq> output \<longrightarrow>
                 (if axis n = Inr []
                  then n \<in> set (const_ops c) \<and> n \<notin> set (ewise_ops c)
                  else n \<in> set (ewise_ops c) \<and> n \<notin> set (const_ops c))
                 \<and> n \<notin> set (conv2d_res c))
            \<and> (\<not> is_broadcast (tag n) \<longrightarrow>
                 tag n = ''conv2d_dense'' \<and> n \<in> set (conv2d_res c)
                 \<and> n \<notin> set (const_ops c) \<and> n \<notin> set (ewise_ops c)))))
   \<and> (\<not> list_all (\<lambda>n. \<not> is_broadcast (tag n) \<longrightarrow> tag n = ''conv2d_dense'')
         (visits is_broadcast output) \<longrightarrow>
      traverse is_broadcast output output no_classes = Inl AssertionError
      \<and> (\<exists>e. schedule_conv2d_packed env is_broadcast cfg [output] = Inl e))
   \<and> (length (filter (\<lambda>n. \<not> is_broadcast (tag n)) (visits is_broadcast output)) \<noteq> 1 \<longrightarrow>
      (\<exists>e. schedule_conv2d_packed env is_broadcast cfg [output] = Inl e)
      \<and> (input_tensors output \<noteq> [] \<longrightarrow>
           schedule_conv2d_packed env is_broadcast cfg [output] = Inl AssertionError))"
proof (intro conjI impI)
  show "n \<in> set (visits is_broadcast output) \<longleftrightarrow>
      n = output \<or> (\<exists>m \<in> set (visits is_broadcast output). is_broadcast (tag m)
        \<and> n \<in> set (input_tensors m) \<and> \<not> is_PlaceholderOp n)"
    by (rule visited_iff)
next
  assume good: "list_all (\<lambda>n. \<not> is_broadcast (tag n) \<longrightarrow> tag n = ''conv2d_dense'')
      (visits is_broadcast output)"
  obtain c where run: "traverse is_broadcast output output no_classes = Inr c"
  proof (cases "traverse is_broadcast output output no_classes")
    case (Inl e)
    from traverse_fails [OF Inl] good have False
      by (auto simp: list_all_iff)
    then show ?thesis ..
  next
    case (Inr c)
    then show ?thesis by (rule that)
  qed
  from traverse_classes [OF run]
  have lists: "const_ops c = filter (\<lambda>n. is_broadcast (tag n) \<and> n \<noteq> output \<and> axis n = Inr [])
        (visits is_broadcast output)"
      "ewise_ops c = filter (\<lambda>n. is_broadcast (tag n) \<and> n \<noteq> output \<and> axis n \<noteq> Inr [])
        (visits is_broadcast output)"
      "conv2d_res c = filter (\<lambda>n. \<not> is_broadcast (tag n)) (visits is_broadcast output)"
    by (simp_all add: no_classes_def)
  from good have parts: "\<forall>n \<in> set (visits is_broadcast output).
          (is_broadcast (tag n) \<and> n \<noteq> output \<longrightarrow>
             (if axis n = Inr []
              then n \<in> set (const_ops c) \<and> n \<notin> set (ewise_ops c)
              else n \<in> set (ewise_ops c) \<and> n \<notin> set (const_ops c))
             \<and> n \<notin> set (conv2d_res c))
        \<and> (\<not> is_broadcast (tag n) \<longrightarrow>
             tag n = ''conv2d_dense'' \<and> n \<in> set (conv2d_res c)
             \<and> n \<notin> set (const_ops c) \<and> n \<notin> set (ewise_ops c))"
    unfolding lists by (auto simp: list_all_iff)
  from run lists parts
  show "\<exists>c. traverse is_broadcast output output no_classes = Inr c
         \<and> const_ops c = filter (\<lambda>n. is_broadcast (tag n) \<and> n \<noteq> output \<and> axis n = Inr [])
             (visits is_broadcast output)
         \<and> ewise_ops c = filter (\<lambda>n. is_broadcast (tag n) \<and> n \<noteq> output \<and> axis n \<noteq> Inr [])
             (visits is_broadcast output)
         \<and> conv2d_res c = filter (\<lambda>n. \<not> is_broadcast (tag n)) (visits is_broadcast output)
         \<and> (\<forall>n \<in> set (visits is_broadcast output).
              (is_broadcast (tag n) \<and> n \<noteq> output \<longrightarrow>
                 (if axis n = Inr []
                  then n \<in> set (const_ops c) \<and> n \<notin> set (ewise_ops c)
                  else n \<in> set (ewise_ops c) \<and> n \<notin> set (const_ops c))
                 \<and> n \<notin> set (conv2d_res c))
            \<and> (\<not> is_broadcast (tag n) \<longrightarrow>
                 tag n = ''conv2d_dense'' \<and> n \<in> set (conv2d_res c)
                 \<and> n \<notin> set (const_ops c) \<and> n \<notin> set (ewise_ops c)))"
    by (intro exI [of _ c] conjI)
next
  assume bad: "\<not> list_all (\<lambda>n. \<not> is_broadcast (tag n) \<longrightarrow> tag n = ''conv2d_dense'')
      (visits is_broadcast output)"
  show fails: "traverse is_broadcast output output no_classes = Inl AssertionError"
  proof (cases "traverse is_broadcast output output no_classes")
    case (Inl e)
    with traverse_error [OF Inl] show ?thesis
      by simp
  next
    case (Inr c')
    from traverse_classes [OF Inr] bad show ?thesis
      by simp
  qed
  from classify_not_Inr [OF fails] obtain e where "classify is_broadcast [output] = Inl e" ..
  from classify_fails [OF this]
  show "\<exists>e. schedule_conv2d_packed env is_broadcast cfg [output] = Inl e" ..
next
  assume count: "length (filter (\<lambda>n. \<not> is_broadcast (tag n)) (visits is_broadcast output)) \<noteq> 1"
  have cl: "(\<exists>e. classify is_broadcast [output] = Inl e)
      \<and> (input_tensors output \<noteq> [] \<longrightarrow> classify is_broadcast [output] = Inl AssertionError)"
  proof (cases "traverse is_broadcast output output no_classes")
    case (Inl e)
    from traverse_error [OF Inl] have "e = AssertionError"
      by simp
    with Inl show ?thesis
      by (cases "input_tensors output") (simp_all add: classify_def)
  next
    case (Inr c)
    from traverse_classes [OF Inr] count have "length (conv2d_res c) \<noteq> 1"
      by (simp add: no_classes_def)
    with Inr show ?thesis
      by (cases "input_tensors output") (simp_all add: classify_def)
  qed
  then obtain e where e: "classify is_broadcast [output] = Inl e"
    by blast
  from classify_fails [OF e]
  show "\<exists>e. schedule_conv2d_packed env is_broadcast cfg [output] = Inl e" ..
  assume "input_tensors output \<noteq> []"
  with cl have "classify is_broadcast [output] = Inl AssertionError"
    by simp
  then show "schedule_conv2d_packed env is_broadcast cfg [output] = Inl AssertionError"
    by (rule classify_fails)
qed

lemma pooled_visits:
  "\<exists>n \<in> set (visits example_is_broadcast pooled_output).
     \<not> example_is_broadcast (tag n) \<and> tag n \<noteq> ''conv2d_dense''"
  by (simp add: visits.simps pooled_output_def example_is_broadcast_def)

lemma folded_visits:
  "visits example_is_broadcast folded_output =
     [folded_output, folded_add, example_res, folded_const]"
  "axis folded_const = Inr []" "axis folded_add \<noteq> Inr []"
  "folded_const \<noteq> folded_output" "folded_add \<noteq> folded_output"
  "tag folded_output = ''elemwise''" "tag folded_add = ''broadcast''"
  "tag folded_const = ''broadcast''"
  by (simp_all add: visits.simps folded_output_def folded_add_def folded_const_def)

lemma two_conv_visits:
  "visits example_is_broadcast two_conv_output = [two_conv_output, example_res, second_res]"
  "tag two_conv_output = ''broadcast''" "tag second_res = ''conv2d_dense''"
  "input_tensors two_conv_output = [example_res, second_res]"
  by (simp_all add: visits.simps two_conv_output_def second_res_def)

lemma scale_visits:
  "visits example_is_broadcast shared_scale = [shared_scale]"
  by (simp add: visits.simps)

theorem classifier_partition_witness:
  "(\<exists>c. traverse example_is_broadcast folded_output folded_output no_classes = Inr c
       \<and> const_ops c = [folded_const] \<and> ewise_ops c = [folded_add]
       \<and> conv2d_res c = [example_res])
   \<and> traverse example_is_broadcast pooled_output pooled_output no_classes = Inl AssertionError
   \<and> schedule_conv2d_packed example_env example_is_broadcast example_tuned [shared_scale]
       = Inl AssertionError
   \<and> schedule_conv2d_packed example_env example_is_broadcast example_tuned [two_conv_output]
       = Inl AssertionError"
proof (intro conjI)
  show "\<exists>c. traverse example_is_broadcast folded_output folded_output no_classes = Inr c
       \<and> const_ops c = [folded_const] \<and> ewise_ops c = [folded_add]
       \<and> conv2d_res c = [example_res]"
    using classifier_partition [of folded_output example_is_broadcast folded_output]
    by (auto simp: folded_visits)
  show "traverse example_is_broadcast pooled_output pooled_output no_classes
      = Inl AssertionError"
    using classifier_partition [of pooled_output example_is_broadcast pooled_output]
      pooled_visits
    by (auto simp: list_all_iff)
  show "schedule_conv2d_packed example_env example_is_broadcast example_tuned [shared_scale]
      = Inl AssertionError"
    using classifier_partition [of shared_scale example_is_broadcast shared_scale
        example_env example_tuned]
    by (simp add: scale_visits)
  show "schedule_conv2d_packed example_env example_is_broadcast example_tuned [two_conv_output]
      = Inl AssertionError"
    using classifier_partition [of two_conv_output example_is_broadcast two_conv_output
        example_env example_tuned]
    by (simp add: two_conv_visits)
qed

text \<open>
  Claim C5, as stated, fails: the traversal keeps no set of visited operations. In the
  graph \<open>shared_output\<close> the operation \<open>shared_scale\<close> is read by two consumers, the
  output and \<open>shared_product\<close>; it is visited twice and appended to \<open>ewise_ops\<close> twice.
\<close>

theorem shared_node_visited_twice:
  "\<exists>c. classify example_is_broadcast [shared_output] = Inr (shared_output, c)
     \<and> shared_scale \<in> set (input_tensors shared_output)
     \<and> shared_scale \<in> set (input_tensors shared_product)
     \<and> count_list (visits example_is_broadcast shared_output) shared_scale = 2
     \<and> count_list (ewise_ops c) shared_scale = 2"
  by (simp add: classify_def shared_traverse shared_visits)

text \<open>
  Claim C5, amended. An operation is visited once for each time it occurs as a computed
  input of a visited broadcast-tagged operation, and once more when it is the output: a
  node shared by two visited consumers is visited once per consumer. In a traversal that
  succeeds every operation is appended to the category lists once per visit (the output,
  when broadcast-tagged, never), so at most once only if it is visited once.
\<close>

theorem visits_once_per_consumer:
  "count_list (visits is_broadcast output) n =
     (if n = output then 1 else 0) +
     sum_list (map (\<lambda>m. if is_broadcast (tag m)
                          then count_list
                                 (filter (\<lambda>t. \<not> is_PlaceholderOp t) (input_tensors m)) n
                          else 0) (visits is_broadcast output))
   \<and> (traverse is_broadcast output output no_classes = Inr c \<longrightarrow>
        count_list (const_ops c) n + count_list (ewise_ops c) n + count_list (conv2d_res c) n =
          (if n = output \<and> is_broadcast (tag output) then 0
           else count_list (visits is_broadcast output) n))"
proof (intro conjI impI)
  show "count_list (visits is_broadcast output) n =
     (if n = output then 1 else 0) +
     sum_list (map (\<lambda>m. if is_broadcast (tag m)
                          then count_list
                                 (filter (\<lambda>t. \<not> is_PlaceholderOp t) (input_tensors m)) n
                          else 0) (visits is_broadcast output))"
    by (rule visits_count)
next
  assume run: "traverse is_broadcast output output no_classes = Inr c"
  from traverse_classes [OF run]
  have lists: "const_ops c = filter (\<lambda>n. is_broadcast (tag n) \<and> n \<noteq> output \<and> axis n = Inr [])
        (visits is_broadcast output)"
      "ewise_ops c = filter (\<lambda>n. is_broadcast (tag n) \<and> n \<noteq> output \<and> axis n \<noteq> Inr [])
        (visits is_broadcast output)"
      "conv2d_res c = filter (\<lambda>n. \<not> is_broadcast (tag n)) (visits is_broadcast output)"
    by (simp_all add: no_classes_def)
  show "count_list (const_ops c) n + count_list (ewise_ops c) n + count_list (conv2d_res c) n =
          (if n = output \<and> is_broadcast (tag output) then 0
           else count_list (visits is_broadcast output) n)"
    unfolding lists by (auto simp: count_list_filter)
qed

theorem visits_once_per_consumer_witness:
  "\<exists>c. traverse example_is_broadcast shared_output shared_output no_classes = Inr c
     \<and> count_list (visits example_is_broadcast shared_output) shared_scale = 2
     \<and> count_list (const_ops c) shared_scale + count_list (ewise_ops c) shared_scale
         + count_list (conv2d_res c) shared_scale = 2"
  using visits_once_per_consumer [of example_is_broadcast shared_output shared_scale
      "\<lparr>const_ops = [],
          ewise_inputs = [(shared_scale, example_bias), (shared_scale, example_bias)],
          ewise_ops = [shared_product, shared_scale, shared_scale],
          conv2d_res = [example_res]\<rparr>"]
    shared_traverse shared_visits
  by simp

section \<open>Properties of the schedules\<close>

text \<open>
  Claim C10. Line 79 of \<^verbatim>\<open>schedule_conv2d_packed\<close> asserts, before the traversal and
  before the schedule is created, that the datatype of the first input tensor of the
  output operation contains \<^verbatim>\<open>int\<close>: for every output whose first input has another
  datatype the function fails with an assertion error, and so do the checks of lines 73
  to 98 alone, whatever the traversal would find.
\<close>

theorem schedule_conv2d_packed_requires_int_input:
  assumes "input_tensors output = t # ts" and "\<not> str_contains ''int'' (dtype t)"
  shows "schedule_conv2d_packed env is_broadcast cfg [output] = Inl AssertionError
    \<and> classify is_broadcast [output] = Inl AssertionError"
proof -
  from assms have "classify is_broadcast [output] = Inl AssertionError"
    by (simp add: classify_def)
  then show ?thesis
    by (simp add: classify_fails)
qed

theorem schedule_conv2d_packed_requires_int_input_witness:
  "input_tensors float_output =
     [PlaceholderOp 0 ''lhs'' [1, 4, 56, 56, 1, 16] ''float32'',
      PlaceholderOp 1 ''rhs'' [1, 4, 56, 56, 1, 16] ''float32'']
   \<and> \<not> str_contains ''int'' ''float32''
   \<and> schedule_conv2d_packed example_env example_is_broadcast example_tuned [float_output]
       = Inl AssertionError"
  using schedule_conv2d_packed_requires_int_input [of float_output
      "PlaceholderOp 0 ''lhs'' [1, 4, 56, 56, 1, 16] ''float32''"
      "[PlaceholderOp 1 ''rhs'' [1, 4, 56, 56, 1, 16] ''float32'']"
      example_env example_is_broadcast example_tuned]
  by (simp add: float_output_def)

lemma nodes_self: "x \<in> set (nodes x)"
  by (simp add: nodes.simps [of x])

lemma create_schedule_stage:
  "stage_map (create_schedule ops) x = Some st \<longleftrightarrow>
     x \<in> set (concat (map nodes ops)) \<and> st = new_stage x"
  by (auto simp: create_schedule_def)

lemma create_schedule_outputs [simp]: "outputs (create_schedule ops) = ops"
  by (simp add: create_schedule_def)

lemma AutoInlineInjective_stage:
  "stage_map (AutoInlineInjective s) x = Some st' \<longleftrightarrow>
     (\<exists>st. stage_map s x = Some st \<and>
        st' = (if is_ComputeOp x \<and> reduce_axis x = Inr [] \<and> x \<notin> set (outputs s)
               then st\<lparr>attach := Inline\<rparr> else st))"
  by (auto simp: AutoInlineInjective_def)

text \<open>
  Claim C9. For an output whose datatype does not contain \<^verbatim>\<open>int\<close>, \<^verbatim>\<open>_schedule_add\<close>
  returns the schedule it created with only the injective inlining applied: its stages
  are those of the operations of the graph (no cached copy), and every stage has the
  loop nest of its operation (no split, no reorder), no scope, no annotation, and is
  inlined when its operation is an injective compute operation other than the output,
  a root stage otherwise.
\<close>

theorem schedule_add_not_integral:
  assumes "\<not> str_contains ''int'' (dtype output)"
  shows "\<exists>s. schedule_add env is_broadcast [output] = Inr s
    \<and> s = AutoInlineInjective (create_schedule [output])
    \<and> (\<forall>x st. stage_map s x = Some st \<longrightarrow>
          x \<in> set (nodes output)
        \<and> leaf_iter_vars st = root_iter_vars x \<and> relations st = []
        \<and> scope st = [] \<and> annotations st = []
        \<and> attach st = (if is_ComputeOp x \<and> reduce_axis x = Inr [] \<and> x \<noteq> output
                        then Inline else GroupRoot))"
proof -
  have "schedule_add env is_broadcast [output] =
      Inr (AutoInlineInjective (create_schedule [output]))"
    using assms by (simp add: schedule_add_def Let_def)
  moreover have "x \<in> set (nodes output)
        \<and> leaf_iter_vars st = root_iter_vars x \<and> relations st = []
        \<and> scope st = [] \<and> annotations st = []
        \<and> attach st = (if is_ComputeOp x \<and> reduce_axis x = Inr [] \<and> x \<noteq> output
                        then Inline else GroupRoot)"
    if "stage_map (AutoInlineInjective (create_schedule [output])) x = Some st" for x st
    using that
    by (auto simp: AutoInlineInjective_stage create_schedule_stage new_stage_def)
  ultimately show ?thesis
    by blast
qed

theorem schedule_add_not_integral_witness:
  "\<not> str_contains ''int'' (dtype float_output)
   \<and> (\<exists>s st. schedule_add example_env example_is_broadcast [float_output] = Inr s
        \<and> stage_map s float_output = Some st
        \<and> leaf_iter_vars st = root_iter_vars float_output \<and> relations st = []
        \<and> scope st = [] \<and> annotations st = [] \<and> attach st = GroupRoot)"
proof -
  have dt: "\<not> str_contains ''int'' (dtype float_output)"
    by (simp add: float_output_def)
  from schedule_add_not_integral [OF dt, of example_env example_is_broadcast]
  obtain s where run: "schedule_add example_env example_is_broadcast [float_output] = Inr s"
    and s: "s = AutoInlineInjective (create_schedule [float_output])"
    and stages: "\<forall>x st. stage_map s x = Some st \<longrightarrow>
          x \<in> set (nodes float_output)
        \<and> leaf_iter_vars st = root_iter_vars x \<and> relations st = []
        \<and> scope st = [] \<and> annotations st = []
        \<and> attach st = (if is_ComputeOp x \<and> reduce_axis x = Inr [] \<and> x \<noteq> float_output
                        then Inline else GroupRoot)"
    by blast
  have "stage_map s float_output \<noteq> None"
    unfolding s by (simp add: AutoInlineInjective_def create_schedule_def nodes_self)
  then obtain st where "stage_map s float_output = Some st"
    by blast
  with stages run dt show ?thesis
    by fastforce
qed

subsection \<open>What each primitive does when it succeeds\<close>

lemma get_stage_Inr: "get_stage s x = Inr st \<longleftrightarrow> stage_map s x = Some st"
  by (simp add: get_stage_def split: option.splits)

lemma put_stage_simps [simp]:
  "stage_map (put_stage s x st) = (stage_map s)(x \<mapsto> st)"
  "next_id (put_stage s x st) = next_id s"
  "outputs (put_stage s x st) = outputs s"
  by (simp_all add: put_stage_def)

lemma set_scope_Inr:
  "set_scope s x sc = Inr s' \<longleftrightarrow>
     (\<exists>st. stage_map s x = Some st \<and> s' = put_stage s x (st\<lparr>scope := sc\<rparr>))"
  by (auto simp: set_scope_def ebind_eq_Inr get_stage_Inr)

lemma compute_inline_Inr:
  "compute_inline s x = Inr s' \<longleftrightarrow>
     (\<exists>st. stage_map s x = Some st \<and> s' = put_stage s x (st\<lparr>attach := Inline\<rparr>))"
  by (auto simp: compute_inline_def ebind_eq_Inr get_stage_Inr)

lemma annotate_Inr:
  "annotate s x var a = Inr s' \<longleftrightarrow>
     (\<exists>st. stage_map s x = Some st \<and> var \<in> set (leaf_iter_vars st)
        \<and> s' = put_stage s x (st\<lparr>annotations := annotations st @ [a]\<rparr>))"
  by (auto simp: annotate_def ebind_eq_Inr get_stage_Inr)

lemma compute_at_Inr:
  "compute_at s x parent var = Inr s' \<longleftrightarrow>
     (\<exists>st pst. stage_map s x = Some st \<and> stage_map s parent = Some pst
        \<and> var \<in> set (leaf_iter_vars pst)
        \<and> s' = put_stage s x (st\<lparr>attach := Scope parent var\<rparr>))"
  by (auto simp: compute_at_def ebind_eq_Inr get_stage_Inr)

lemma split_Inr:
  "split s x parent factor = Inr (s', vo, vi) \<longleftrightarrow>
     (\<exists>st. stage_map s x = Some st \<and> parent \<in> set (leaf_iter_vars st)
        \<and> vo = Outer parent \<and> vi = Inner parent
        \<and> s' = put_stage s x
            (st\<lparr>leaf_iter_vars := substitute parent (leaf_iter_vars st),
                relations := relations st @ [(parent, factor)]\<rparr>))"
  by (auto simp: split_def ebind_eq_Inr get_stage_Inr)

lemma reorder_Inr:
  "reorder s x order = Inr s' \<longleftrightarrow>
     (\<exists>st. stage_map s x = Some st \<and> distinct order
        \<and> set order \<subseteq> set (leaf_iter_vars st)
        \<and> s' = put_stage s x
            (st\<lparr>leaf_iter_vars := refill (leaf_iter_vars st) order order\<rparr>))"
  by (auto simp: reorder_def ebind_eq_Inr get_stage_Inr list_all_iff)

lemma cache_read_Inr:
  "cache_read s t sc readers = Inr (s', cache) \<Longrightarrow>
     op_id cache = next_id s \<and> input_tensors cache = [t] \<and> op_body cache = CacheBody
     \<and> shape cache = shape t
     \<and> next_id s' = Suc (next_id s) \<and> outputs s' = outputs s
     \<and> stage_map s' = (stage_map s)(cache \<mapsto> (new_stage cache)\<lparr>scope := sc\<rparr>)"
  by (auto simp: cache_read_def ebind_eq_Inr Let_def comp_def split: if_splits
      intro: nth_equalityI)

subsection \<open>Frames\<close>

lemma keeps_refl [simp]: "keeps f k s s"
  by (simp add: keeps_def)

lemma keeps_trans: "keeps f k s s' \<Longrightarrow> keeps f k s' s'' \<Longrightarrow> keeps f k s s''"
  by (fastforce simp: keeps_def)

lemma keeps_put_stage:
  assumes "stage_map s x = Some st" and "f st' = f st"
  shows "keeps f k s (put_stage s x st')"
  using assms by (auto simp: keeps_def)


lemma keeps_set_scope:
  assumes "set_scope s x sc = Inr s'" and "\<And>st v. f (st\<lparr>scope := v\<rparr>) = f st"
  shows "keeps f k s s'"
  using assms by (auto simp: set_scope_Inr intro: keeps_put_stage)

lemma keeps_compute_inline:
  assumes "compute_inline s x = Inr s'" and "\<And>st v. f (st\<lparr>attach := v\<rparr>) = f st"
  shows "keeps f k s s'"
  using assms by (auto simp: compute_inline_Inr intro: keeps_put_stage)

lemma keeps_compute_at:
  assumes "compute_at s x parent var = Inr s'" and "\<And>st v. f (st\<lparr>attach := v\<rparr>) = f st"
  shows "keeps f k s s'"
  using assms by (auto simp: compute_at_Inr intro: keeps_put_stage)

lemma keeps_annotate:
  assumes "annotate s x var a = Inr s'" and "\<And>st v. f (st\<lparr>annotations := v\<rparr>) = f st"
  shows "keeps f k s s'"
  using assms by (auto simp: annotate_Inr intro: keeps_put_stage)

lemma keeps_pragma:
  assumes "pragma s x var p = Inr s'" and "\<And>st v. f (st\<lparr>annotations := v\<rparr>) = f st"
  shows "keeps f k s s'"
  using assms unfolding pragma_def by (rule keeps_annotate)



lemma keeps_pragma_first_axis:
  assumes "pragma_first_axis s x p = Inr s'" and "\<And>st v. f (st\<lparr>annotations := v\<rparr>) = f st"
  shows "keeps f k s s'"
  using assms by (auto simp: pragma_first_axis_def ebind_eq_Inr intro: keeps_pragma)



lemma keeps_cache_read:
  assumes "cache_read s t sc readers = Inr (s', cache)"
  shows "keeps f k s s'"
proof -
  from cache_read_Inr [OF assms] have "op_id cache = next_id s"
    and "next_id s' = Suc (next_id s)"
    and "stage_map s' = (stage_map s)(cache \<mapsto> (new_stage cache)\<lparr>scope := sc\<rparr>)"
    by simp_all
  then show ?thesis
    by (auto simp: keeps_def)
qed

lemma keeps_efold:
  assumes "efold g xs a = Inr a'"
    and "\<And>x a a'. x \<in> set xs \<Longrightarrow> g x a = Inr a' \<Longrightarrow> keeps f k (proj a) (proj a')"
  shows "keeps f k (proj a) (proj a')"
  using assms
proof (induction xs arbitrary: a)
  case Nil
  then show ?case by simp
next
  case (Cons x xs)
  from Cons.prems(1) obtain a1 where step: "g x a = Inr a1" and rest: "efold g xs a1 = Inr a'"
    by (auto simp: ebind_eq_Inr)
  have "keeps f k (proj a) (proj a1)"
    using Cons.prems(2) [of x a a1] step by simp
  moreover have "keeps f k (proj a1) (proj a')"
    by (rule Cons.IH [OF rest]) (rule Cons.prems(2), simp_all)
  ultimately show ?case
    by (rule keeps_trans)
qed

lemma keeps_cache_reads:
  assumes "efold (\<lambda>(consumer, tensor) (s, cached).
             ebind (cache_read s tensor sc [consumer]) (\<lambda>(s, t). Inr (s, cached @ [t])))
           xs (s, acc) = Inr (s', cached)"
  shows "keeps f k s s'"
proof -
  have "keeps f k (fst (s, acc)) (fst (s', cached))"
  proof (rule keeps_efold [OF assms])
    fix x :: "op \<times> op" and a a' :: "schedule \<times> op list"
    assume "(case x of (consumer, tensor) \<Rightarrow> \<lambda>(s, cached).
               ebind (cache_read s tensor sc [consumer]) (\<lambda>(s, t). Inr (s, cached @ [t]))) a
             = Inr a'"
    then show "keeps f k (fst a) (fst a')"
      by (auto simp: ebind_eq_Inr split: prod.splits intro: keeps_cache_read)
  qed
  then show ?thesis
    by simp
qed

subsection \<open>Splitting and reordering a loop nest\<close>

lemma data_axis_not_split [simp]:
  "is_data_axis v \<Longrightarrow> v \<noteq> Outer w" "is_data_axis v \<Longrightarrow> v \<noteq> Inner w"
  "is_data_axis v \<Longrightarrow> Outer w \<noteq> v" "is_data_axis v \<Longrightarrow> Inner w \<noteq> v"
  by (cases v rule: is_data_axis.cases; simp)+

lemma reduce_axis_not_split [simp]:
  "is_reduce_axis v \<Longrightarrow> v \<noteq> Outer w" "is_reduce_axis v \<Longrightarrow> v \<noteq> Inner w"
  "is_reduce_axis v \<Longrightarrow> Outer w \<noteq> v" "is_reduce_axis v \<Longrightarrow> Inner w \<noteq> v"
  by (cases v rule: is_reduce_axis.cases; simp)+

lemma data_axis_not_reduce: "is_data_axis v \<Longrightarrow> is_reduce_axis w \<Longrightarrow> v \<noteq> w"
  by (cases v rule: is_data_axis.cases; cases w rule: is_reduce_axis.cases; simp)

lemma data_axis_notin_reduce:
  "is_data_axis v \<Longrightarrow> list_all is_reduce_axis R \<Longrightarrow> v \<notin> set R"
  by (auto simp: list_all_iff dest: data_axis_not_reduce)

lemma split_notin_reduce [simp]:
  "list_all is_reduce_axis R \<Longrightarrow> Outer w \<notin> set R"
  "list_all is_reduce_axis R \<Longrightarrow> Inner w \<notin> set R"
  by (auto simp: list_all_iff)

lemma substitute_Nil [simp]: "substitute p [] = []"
  by (simp add: substitute_def)

lemma substitute_Cons:
  "substitute p (v # l) = (if v = p then [Outer p, Inner p] else [v]) @ substitute p l"
  by (simp add: substitute_def)

lemma substitute_same [simp]: "substitute p (p # l) = Outer p # Inner p # substitute p l"
  by (simp add: substitute_Cons)

lemma substitute_other [simp]: "v \<noteq> p \<Longrightarrow> substitute p (v # l) = v # substitute p l"
  by (simp add: substitute_Cons)

lemma substitute_append [simp]: "substitute p (l @ m) = substitute p l @ substitute p m"
  by (simp add: substitute_def)

lemma substitute_absent: "p \<notin> set l \<Longrightarrow> substitute p l = l"
  by (induction l) auto

lemma substitute_member:
  assumes "x \<in> set (substitute p l)"
  shows "x = Outer p \<or> x = Inner p \<or> (x \<in> set l \<and> x \<noteq> p)"
  using assms by (auto simp: substitute_def split: if_splits)

lemma refill_absent: "set l \<inter> set order = {} \<Longrightarrow> refill l order queue = l"
  by (induction l arbitrary: queue) auto

lemma axes_of_op:
  "axis x = Inr ax \<Longrightarrow> list_all is_data_axis ax"
  "reduce_axis x = Inr rax \<Longrightarrow> list_all is_reduce_axis rax"
  "axis x = Inr ax \<Longrightarrow> reduce_axis x = Inr rax \<Longrightarrow> root_iter_vars x = ax @ rax"
  by (cases x; auto simp: list_all_iff)+

lemma split_stage:
  assumes "split s x p fac = Inr (s', vo, vi)" and "stage_map s x = Some st"
  shows "vo = Outer p" and "vi = Inner p" and "p \<in> set (leaf_iter_vars st)"
    and "stage_map s' = (stage_map s)(x \<mapsto> st\<lparr>leaf_iter_vars := substitute p (leaf_iter_vars st),
            relations := relations st @ [(p, fac)]\<rparr>)"
    and "next_id s' = next_id s" and "outputs s' = outputs s"
  using assms by (auto simp: split_Inr)

lemma reorder_stage:
  assumes "reorder s x order = Inr s'" and "stage_map s x = Some st"
  shows "distinct order" and "set order \<subseteq> set (leaf_iter_vars st)"
    and "stage_map s' = (stage_map s)(x \<mapsto> st\<lparr>leaf_iter_vars :=
            refill (leaf_iter_vars st) order order\<rparr>)"
    and "next_id s' = next_id s" and "outputs s' = outputs s"
  using assms by (auto simp: reorder_Inr)

lemma tile_steps:
  assumes s1: "split s out b f1 = Inr (s1, ob, ib)"
    and s2: "split s1 out c f2 = Inr (s2, oc, ic)"
    and s3: "split s2 out d f3 = Inr (s3, od, idd)"
    and r: "reorder s3 out [a, oc, ob, od, ib, ic, idd, e, f] = Inr s4"
    and st: "stage_map s out = Some st"
    and leaf: "leaf_iter_vars st = [a, b, c, d, e, f] @ R"
    and data: "list_all is_data_axis [a, b, c, d, e, f]"
    and red: "list_all is_reduce_axis R"
  shows "ob = Outer b \<and> ib = Inner b \<and> oc = Outer c \<and> ic = Inner c
     \<and> od = Outer d \<and> idd = Inner d
     \<and> (\<exists>st'. stage_map s4 = (stage_map s)(out \<mapsto> st')
          \<and> leaf_iter_vars st' =
               [a, Outer c, Outer b, Outer d, Inner b, Inner c, Inner d, e, f] @ R
          \<and> relations st' = relations st @ [(b, f1), (c, f2), (d, f3)]
          \<and> scope st' = scope st \<and> attach st' = attach st
          \<and> annotations st' = annotations st)
     \<and> next_id s4 = next_id s \<and> outputs s4 = outputs s"
proof -
  let ?L0 = "[a, b, c, d, e, f] @ R"
  let ?L1 = "substitute b ?L0"
  let ?L2 = "substitute c ?L1"
  let ?L3 = "substitute d ?L2"
  let ?order = "[a, Outer c, Outer b, Outer d, Inner b, Inner c, Inner d, e, f]"
  from data have da: "is_data_axis a" "is_data_axis b" "is_data_axis c" "is_data_axis d"
      "is_data_axis e" "is_data_axis f"
    by simp_all
  note notR = da [THEN data_axis_notin_reduce, OF red]
  define st1 where "st1 = st\<lparr>leaf_iter_vars := ?L1, relations := relations st @ [(b, f1)]\<rparr>"
  define st2 where "st2 = st1\<lparr>leaf_iter_vars := ?L2,
      relations := relations st1 @ [(c, f2)]\<rparr>"
  define st3 where "st3 = st2\<lparr>leaf_iter_vars := ?L3,
      relations := relations st2 @ [(d, f3)]\<rparr>"
  from split_stage [OF s1 st] leaf
  have names1: "ob = Outer b" "ib = Inner b"
    and m1: "stage_map s1 = (stage_map s)(out \<mapsto> st1)"
    and n1: "next_id s1 = next_id s" "outputs s1 = outputs s"
    by (simp_all add: st1_def)
  from m1 have g1: "stage_map s1 out = Some st1"
    by simp
  have l1: "leaf_iter_vars st1 = ?L1"
    by (simp add: st1_def)
  from split_stage [OF s2 g1] l1
  have names2: "oc = Outer c" "ic = Inner c"
    and c1: "c \<in> set ?L1"
    and m2: "stage_map s2 = (stage_map s1)(out \<mapsto> st2)"
    and n2: "next_id s2 = next_id s1" "outputs s2 = outputs s1"
    by (simp_all add: st2_def)
  from m2 have g2: "stage_map s2 out = Some st2"
    by simp
  have l2: "leaf_iter_vars st2 = ?L2"
    by (simp add: st2_def)
  from split_stage [OF s3 g2] l2
  have names3: "od = Outer d" "idd = Inner d"
    and d1: "d \<in> set ?L2"
    and m3: "stage_map s3 = (stage_map s2)(out \<mapsto> st3)"
    and n3: "next_id s3 = next_id s2" "outputs s3 = outputs s2"
    by (simp_all add: st3_def)
  from m3 have g3: "stage_map s3 out = Some st3"
    by simp
  have l3: "leaf_iter_vars st3 = ?L3"
    by (simp add: st3_def)
  from reorder_stage [OF r g3] l3 names1 names2 names3
  have dist: "distinct ?order"
    and mem: "set ?order \<subseteq> set ?L3"
    and m4: "stage_map s4 = (stage_map s3)(out \<mapsto>
        st3\<lparr>leaf_iter_vars := refill ?L3 ?order ?order\<rparr>)"
    and n4: "next_id s4 = next_id s3" "outputs s4 = outputs s3"
    by simp_all
  from substitute_member [OF c1] da have cb: "c \<noteq> b"
    by auto
  from substitute_member [OF d1] da have dc: "d \<noteq> c" and d2: "d \<in> set ?L1"
    by auto
  from substitute_member [OF d2] da have db: "d \<noteq> b"
    by auto
  have outside: "x \<noteq> b \<and> x \<noteq> c \<and> x \<noteq> d" if "x \<in> set ?L3" and "is_data_axis x" for x
  proof -
    from substitute_member [OF that(1)] that(2) have "x \<noteq> d" and x2: "x \<in> set ?L2"
      by auto
    from substitute_member [OF x2] that(2) have "x \<noteq> c" and x1: "x \<in> set ?L1"
      by auto
    from substitute_member [OF x1] that(2) have "x \<noteq> b"
      by auto
    with \<open>x \<noteq> c\<close> \<open>x \<noteq> d\<close> show ?thesis
      by simp
  qed
  have "a \<in> set ?L3" and "e \<in> set ?L3" and "f \<in> set ?L3"
    by (rule subsetD [OF mem], simp)+
  from this [THEN outside] da
  have ne: "a \<noteq> b" "a \<noteq> c" "a \<noteq> d" "e \<noteq> b" "e \<noteq> c" "e \<noteq> d" "f \<noteq> b" "f \<noteq> c" "f \<noteq> d"
    by blast+
  have L1: "?L1 = [a, Outer b, Inner b, c, d, e, f] @ R"
    using ne cb dc db notR by (simp add: substitute_absent)
  have L2: "?L2 = [a, Outer b, Inner b, Outer c, Inner c, d, e, f] @ R"
    unfolding L1 using ne cb dc db da notR by (simp add: substitute_absent)
  have L3: "?L3 = [a, Outer b, Inner b, Outer c, Inner c, Outer d, Inner d, e, f] @ R"
    unfolding L2 using ne cb dc db da notR by (simp add: substitute_absent)
  have "set R \<inter> set ?order = {}"
    using notR red by simp
  then have "refill R ?order [] = R"
    by (rule refill_absent)
  then have filled: "refill ?L3 ?order ?order = ?order @ R"
    unfolding L3 by simp
  define st4 where "st4 = st3\<lparr>leaf_iter_vars := ?order @ R\<rparr>"
  have "stage_map s4 = (stage_map s)(out \<mapsto> st4)"
    unfolding m4 m3 m2 m1 filled by (simp add: st4_def)
  moreover have "leaf_iter_vars st4 = ?order @ R"
    and "relations st4 = relations st @ [(b, f1), (c, f2), (d, f3)]"
    and "scope st4 = scope st" and "attach st4 = attach st"
    and "annotations st4 = annotations st"
    by (simp_all add: st4_def st3_def st2_def st1_def)
  ultimately show ?thesis
    using names1 names2 names3 n1 n2 n3 n4 by auto
qed

subsection \<open>The divisor heuristic of the fused add\<close>

lemma isqrt_bounds: "isqrt n * isqrt n \<le> n \<and> n < Suc (isqrt n) * Suc (isqrt n)"
proof (induction n)
  case 0
  then show ?case by simp
next
  case (Suc n)
  then show ?case
    by (auto simp: Let_def not_le)
qed

lemma pair_members:
  "d \<in> set (concat (map (\<lambda>i. [i, n div i]) (filter (\<lambda>i. n mod i = 0) [1 .. r])))
     \<longleftrightarrow> (\<exists>i. 1 \<le> i \<and> i \<le> r \<and> n mod i = 0 \<and> (d = i \<or> d = n div i))"
  for d n r :: int
  by (simp only: set_concat set_map set_filter set_upto) auto

lemma divisor_pairs:
  fixes n r :: int
  assumes "0 < n" and "0 \<le> r" and "n < (r + 1) * (r + 1)"
  shows "set (concat (map (\<lambda>i. [i, n div i]) (filter (\<lambda>i. n mod i = 0) [1 .. r])))
    = {d. 0 < d \<and> d dvd n}"
proof (intro set_eqI iffI)
  fix d
  assume "d \<in> set (concat (map (\<lambda>i. [i, n div i]) (filter (\<lambda>i. n mod i = 0) [1 .. r])))"
  then have "\<exists>i. 1 \<le> i \<and> i \<le> r \<and> n mod i = 0 \<and> (d = i \<or> d = n div i)"
    by (simp only: pair_members)
  then obtain i where "1 \<le> i \<and> i \<le> r \<and> n mod i = 0 \<and> (d = i \<or> d = n div i)" ..
  then have i: "1 \<le> i" "i \<le> r" "n mod i = 0" and d: "d = i \<or> d = n div i"
    by simp_all
  from i(3) have dvd: "i dvd n"
    by (simp only: dvd_eq_mod_eq_0)
  then have n: "i * (n div i) = n"
    by simp
  with assms(1) have "0 < i * (n div i)"
    by simp
  then have pos: "0 < n div i"
    by (rule zero_less_mult_pos) (use i(1) in simp)
  have "n div i dvd i * (n div i)"
    by (rule dvd_triv_right)
  then have "n div i dvd n"
    unfolding n .
  with d i(1) dvd pos show "d \<in> {d. 0 < d \<and> d dvd n}"
    by auto
next
  fix d
  assume "d \<in> {d. 0 < d \<and> d dvd n}"
  then have pos: "0 < d" and dvd: "d dvd n"
    by simp_all
  have "\<exists>i. 1 \<le> i \<and> i \<le> r \<and> n mod i = 0 \<and> (d = i \<or> d = n div i)"
  proof (cases "d \<le> r")
    case True
    show ?thesis
      by (rule exI [of _ d]) (use True pos dvd in \<open>simp only: dvd_eq_mod_eq_0\<close>, simp)
  next
    case False
    let ?i = "n div d"
    from dvd have n: "?i * d = n"
      by simp
    with assms(1) have "0 < ?i * d"
      by simp
    then have ipos: "0 < ?i"
      by (rule zero_less_mult_pos2) (rule pos)
    have "?i \<le> r"
    proof (rule ccontr)
      assume "\<not> ?i \<le> r"
      with False have le: "r + 1 \<le> ?i" "r + 1 \<le> d"
        by simp_all
      have "(r + 1) * (r + 1) \<le> ?i * d"
        by (rule mult_mono) (use ipos le pos assms(2) in simp_all)
      with n assms(3) show False
        by linarith
    qed
    moreover have "n mod ?i = 0"
    proof -
      have "?i * d mod ?i = 0"
        by (rule mod_mult_self1_is_0)
      then show ?thesis
        unfolding n .
    qed
    moreover have "n div ?i = d"
    proof -
      from ipos have "?i * d div ?i = d"
        by simp
      then show ?thesis
        unfolding n .
    qed
    ultimately show ?thesis
      by (intro exI [of _ ?i]) (use ipos in simp)
  qed
  then show "d \<in> set (concat (map (\<lambda>i. [i, n div i]) (filter (\<lambda>i. n mod i = 0) [1 .. r])))"
    by (simp only: pair_members)
qed


lemma factors_positive:
  assumes "0 < n"
  shows "\<exists>fs. factors n = Inr fs \<and> sorted fs \<and> distinct fs
    \<and> set fs = {d. 0 < d \<and> d dvd n}"
proof -
  let ?r = "int (isqrt (nat n))"
  let ?all = "concat (map (\<lambda>i. [i, n div i]) (filter (\<lambda>i. n mod i = 0) [1 .. ?r]))"
  have fs: "factors n = Inr (sort (remdups ?all))"
    using assms by (simp add: factors_def)
  from isqrt_bounds [of "nat n"]
  have "int (nat n) < int (Suc (isqrt (nat n)) * Suc (isqrt (nat n)))"
    by (simp only: of_nat_less_iff)
  with assms have "n < (?r + 1) * (?r + 1)"
    by (simp add: algebra_simps)
  with assms have "set ?all = {d. 0 < d \<and> d dvd n}"
    by (intro divisor_pairs) simp_all
  with fs show ?thesis
    by simp
qed

lemma largest_within_sorted:
  assumes "sorted fs" and "\<exists>x \<in> set fs. x \<le> bound"
  shows "\<exists>y. largest_within fs bound = Inr y \<and> y \<in> set fs \<and> y \<le> bound
    \<and> (\<forall>x \<in> set fs. x \<le> bound \<longrightarrow> x \<le> y)"
  using assms
proof (induction fs bound rule: largest_within.induct)
  case (1 fs bound)
  from "1.prems"(2) have ne: "fs \<noteq> []"
    by auto
  then have fs: "butlast fs @ [last fs] = fs"
    by simp
  have sorted': "sorted (butlast fs @ [last fs])"
    using "1.prems"(1) by (simp only: fs)
  have members: "set fs = insert (last fs) (set (butlast fs))"
    by (subst fs [symmetric]) simp
  show ?case
  proof (cases "last fs > bound")
    case True
    from sorted' have sb: "sorted (butlast fs)"
      by (simp add: sorted_append)
    from "1.prems"(2) True have "\<exists>x \<in> set (butlast fs). x \<le> bound"
      unfolding members by auto
    from "1.IH" [OF ne True sb this] obtain y where
      y: "largest_within (butlast fs) bound = Inr y \<and> y \<in> set (butlast fs) \<and> y \<le> bound
        \<and> (\<forall>x \<in> set (butlast fs). x \<le> bound \<longrightarrow> x \<le> y)" ..
    from y ne True have "largest_within fs bound = Inr y"
      by (simp add: largest_within.simps [of fs])
    with y True show ?thesis
      unfolding members by auto
  next
    case False
    with ne have "largest_within fs bound = Inr (last fs)"
      by (simp add: largest_within.simps [of fs])
    moreover from sorted' have "\<forall>x \<in> set (butlast fs). x \<le> last fs"
      by (simp add: sorted_append)
    ultimately show ?thesis
      using False unfolding members by auto
  qed
qed

lemma tile_factor_largest:
  assumes "0 < n" and "1 \<le> bound"
  shows "\<exists>y. tile_factor n bound = Inr y \<and> 0 < y \<and> y dvd n \<and> y \<le> bound
    \<and> (\<forall>d. d dvd n \<and> d \<le> bound \<longrightarrow> d \<le> y)"
proof -
  from factors_positive [OF assms(1)] obtain fs where
    "factors n = Inr fs \<and> sorted fs \<and> distinct fs \<and> set fs = {d. 0 < d \<and> d dvd n}" ..
  then have fs: "factors n = Inr fs" and sorted: "sorted fs"
    and set: "set fs = {d. 0 < d \<and> d dvd n}"
    by simp_all
  from set have "1 \<in> set fs"
    by simp
  with assms(2) have "\<exists>x \<in> set fs. x \<le> bound"
    by (rule bexI)
  from largest_within_sorted [OF sorted this] obtain y where
    "largest_within fs bound = Inr y \<and> y \<in> set fs \<and> y \<le> bound
      \<and> (\<forall>x \<in> set fs. x \<le> bound \<longrightarrow> x \<le> y)" ..
  then have y: "largest_within fs bound = Inr y" "y \<in> set fs" "y \<le> bound"
    and largest: "\<forall>x \<in> set fs. x \<le> bound \<longrightarrow> x \<le> y"
    by simp_all
  from y(2) set have ypos: "0 < y" and ydvd: "y dvd n"
    by simp_all
  have "d \<le> y" if "d dvd n \<and> d \<le> bound" for d
  proof (cases "0 < d")
    case True
    with that set have "d \<in> set fs"
      by simp
    with largest that show ?thesis
      by simp
  next
    case False
    with ypos show ?thesis
      by simp
  qed
  then have "\<forall>d. d dvd n \<and> d \<le> bound \<longrightarrow> d \<le> y"
    by simp
  with fs y ypos ydvd show ?thesis
    by (simp add: tile_factor_def)
qed

lemma tile_factor_56: "tile_factor 56 28 = Inr 28" "tile_factor 56 14 = Inr 14"
proof -
  from tile_factor_largest [of 56 28] obtain y where
    "tile_factor 56 28 = Inr y \<and> 0 < y \<and> y dvd 56 \<and> y \<le> 28
      \<and> (\<forall>d. d dvd 56 \<and> d \<le> 28 \<longrightarrow> d \<le> y)"
    by auto
  then have y: "tile_factor 56 28 = Inr y" "y \<le> 28"
    and "(28::int) dvd 56 \<and> (28::int) \<le> 28 \<longrightarrow> 28 \<le> y"
    by simp_all
  then have "28 \<le> y"
    by simp
  with y show "tile_factor 56 28 = Inr 28"
    by simp
  from tile_factor_largest [of 56 14] obtain z where
    "tile_factor 56 14 = Inr z \<and> 0 < z \<and> z dvd 56 \<and> z \<le> 14
      \<and> (\<forall>d. d dvd 56 \<and> d \<le> 14 \<longrightarrow> d \<le> z)"
    by auto
  then have z: "tile_factor 56 14 = Inr z" "z \<le> 14"
    and "(14::int) dvd 56 \<and> (14::int) \<le> 14 \<longrightarrow> 14 \<le> z"
    by simp_all
  then have "14 \<le> z"
    by simp
  with z show "tile_factor 56 14 = Inr 14"
    by simp
qed

subsection \<open>Frames of the phases\<close>

lemma keeps_efold_schedule:
  assumes "efold g xs s = Inr s'"
    and "\<And>x s s'. g x s = Inr s' \<Longrightarrow> keeps f k s s'"
  shows "keeps f k s s'"
  using keeps_efold [where proj = "\<lambda>s. s" and f = f and k = k, OF assms(1)] assms(2)
  by simp

lemma keeps_add_stages:
  assumes run: "add_stages env s output store_pt x_co1 c = Inr s'"
    and f: "\<And>st v. f (st\<lparr>scope := v\<rparr>) = f st" "\<And>st v. f (st\<lparr>attach := v\<rparr>) = f st"
      "\<And>st v. f (st\<lparr>annotations := v\<rparr>) = f st"
  shows "keeps f k s s'"
proof -
  from run obtain s1 s2 cached s3 s4 where
    e1: "efold (\<lambda>eo s.
              ebind (set_scope s eo (acc_scope env)) (\<lambda>s.
              ebind (pragma_first_axis s eo (alu env)) (\<lambda>s.
              compute_at s eo output store_pt)))
            (ewise_ops c) s = Inr s1"
    and e2: "efold (\<lambda>(consumer, tensor) (s, cached).
              ebind (cache_read s tensor (acc_scope env) [consumer]) (\<lambda>(s, t).
              Inr (s, cached @ [t])))
            (ewise_inputs c) (s1, []) = Inr (s2, cached)"
    and e3: "efold (\<lambda>tensor s.
              ebind (pragma_first_axis s tensor (dma_copy env)) (\<lambda>s.
              compute_at s tensor output store_pt))
            cached s2 = Inr s3"
    and e4: "efold (\<lambda>x s. compute_inline s x) (const_ops c) s3 = Inr s4"
    and e5: "pragma s4 output x_co1 (dma_copy env) = Inr s'"
    by (auto simp: add_stages_def ebind_eq_Inr)
  have "keeps f k s s1"
  proof (rule keeps_efold_schedule [OF e1])
    fix x a a'
    assume "ebind (set_scope a x (acc_scope env)) (\<lambda>s.
              ebind (pragma_first_axis s x (alu env)) (\<lambda>s.
              compute_at s x output store_pt)) = Inr a'"
    then obtain b b' where "set_scope a x (acc_scope env) = Inr b"
      and "pragma_first_axis b x (alu env) = Inr b'"
      and "compute_at b' x output store_pt = Inr a'"
      unfolding ebind_eq_Inr by blast
    then have "keeps f k a b" and "keeps f k b b'" and "keeps f k b' a'"
      using f by (auto intro: keeps_set_scope keeps_pragma_first_axis keeps_compute_at)
    then show "keeps f k a a'"
      by (blast intro: keeps_trans)
  qed
  moreover have "keeps f k s1 s2"
    using e2 by (rule keeps_cache_reads)
  moreover have "keeps f k s2 s3"
  proof (rule keeps_efold_schedule [OF e3])
    fix x a a'
    assume "ebind (pragma_first_axis a x (dma_copy env)) (\<lambda>s.
              compute_at s x output store_pt) = Inr a'"
    then obtain b where "pragma_first_axis a x (dma_copy env) = Inr b"
      and "compute_at b x output store_pt = Inr a'"
      unfolding ebind_eq_Inr by blast
    then have "keeps f k a b" and "keeps f k b a'"
      using f by (auto intro: keeps_pragma_first_axis keeps_compute_at)
    then show "keeps f k a a'"
      by (blast intro: keeps_trans)
  qed
  moreover have "keeps f k s3 s4"
    by (rule keeps_efold_schedule [OF e4]) (use f in \<open>auto intro: keeps_compute_inline\<close>)
  moreover have "keeps f k s4 s'"
    using e5 f by (auto intro: keeps_pragma)
  ultimately show ?thesis
    by (blast intro: keeps_trans)
qed


lemma op_id_le_max_id: "op_id x \<le> max_id x"
  by (cases x) simp_all

lemma reduce_axis_exists: "axis x = Inr ax \<Longrightarrow> \<exists>rax. reduce_axis x = Inr rax"
  by (cases x) simp_all

lemma add_tile_result:
  assumes run: "add_tile s output = Inr (s', store_pt, x_co1)"
    and ax: "axis output = Inr [x_bo, x_co, x_i, x_j, x_bi, x_ci]"
    and rax: "reduce_axis output = Inr rax"
    and h: "dom_extent x_i = Inr h" and w: "dom_extent x_j = Inr w"
    and st: "stage_map s output = Some st"
    and leaf: "leaf_iter_vars st = root_iter_vars output"
  shows "\<exists>fh fw st'. tile_factor h 28 = Inr fh \<and> tile_factor w 14 = Inr fw
     \<and> store_pt = Outer x_j \<and> x_co1 = Inner x_co
     \<and> stage_map s' = (stage_map s)(output \<mapsto> st')
     \<and> leaf_iter_vars st' =
          [x_bo, Outer x_i, Outer x_co, Outer x_j, Inner x_co, Inner x_i, Inner x_j, x_bi, x_ci]
          @ rax
     \<and> relations st' = relations st @ [(x_co, 1), (x_i, fh), (x_j, fw)]
     \<and> next_id s' = next_id s"
proof -
  from run ax h w obtain s1 x_co0 x_co1' fh fw s2 x_i0 x_i1 s3 x_j0 x_j1 s4 where
    s1: "split s output x_co 1 = Inr (s1, x_co0, x_co1')"
    and fh: "tile_factor h 28 = Inr fh" and fw: "tile_factor w 14 = Inr fw"
    and s2: "split s1 output x_i fh = Inr (s2, x_i0, x_i1)"
    and s3: "split s2 output x_j fw = Inr (s3, x_j0, x_j1)"
    and s4: "reorder s3 output [x_bo, x_i0, x_co0, x_j0, x_co1', x_i1, x_j1, x_bi, x_ci]
        = Inr s4"
    and res: "s' = s4" "store_pt = x_j0" "x_co1 = x_co1'"
    by (auto simp: add_tile_def ebind_eq_Inr)
  from axes_of_op(3) [OF ax rax] leaf
  have leaf': "leaf_iter_vars st = [x_bo, x_co, x_i, x_j, x_bi, x_ci] @ rax"
    by simp
  from tile_steps [OF s1 s2 s3 s4 st leaf' axes_of_op(1) [OF ax] axes_of_op(2) [OF rax]]
    fh fw res
  show ?thesis
    by auto
qed

lemma first_schedule_stage:
  assumes "x \<in> set (nodes output)"
  shows "\<exists>st. stage_map (AutoInlineInjective (create_schedule [output])) x = Some st
      \<and> leaf_iter_vars st = root_iter_vars x \<and> relations st = []"
    and "\<exists>st. stage_map (create_schedule [output]) x = Some st
      \<and> leaf_iter_vars st = root_iter_vars x \<and> relations st = []"
  using assms by (simp_all add: AutoInlineInjective_def create_schedule_def new_stage_def)

lemma first_schedule_next_id:
  "next_id (create_schedule [output]) = Suc (max_id output)"
  "next_id (AutoInlineInjective s) = next_id s"
  by (simp_all add: create_schedule_def AutoInlineInjective_def)

lemma int_add_run:
  "\<exists>s. schedule_add example_env example_is_broadcast [int_add_output] = Inr s"
  by (simp add: schedule_add_def int_add_output_def Let_def traverse_add.simps same_as_def
      no_classes_def add_tile_def add_stages_def get_stage_def AutoInlineInjective_def
      create_schedule_def nodes.simps new_stage_def split_def tile_factor_56 reorder_def
      put_stage_def substitute_def cache_read_def pragma_first_axis_def first_axis_def
      pragma_def annotate_def compute_at_def compute_inline_def example_env_def)


text \<open>
  Claim C8. For positive constant height and width extents the factors selected by lines
  253 to 263 are the largest divisors of the extents not exceeding 28 and 14; for an
  output with integral datatype these are the factors by which \<^verbatim>\<open>_schedule_add\<close>
  splits the height and width axes of the output stage (after the channel axis, split
  by 1). For extents 56 and 56 the factors are 28 and 14.
\<close>

theorem schedule_add_tile_factors:
  assumes "str_contains ''int'' (dtype output)"
    and "axis output = Inr [x_bo, x_co, x_i, x_j, x_bi, x_ci]"
    and "dom_extent x_i = Inr h" and "dom_extent x_j = Inr w"
    and "0 < h" and "0 < w"
  shows "\<exists>fh fw. tile_factor h 28 = Inr fh \<and> tile_factor w 14 = Inr fw
     \<and> 0 < fh \<and> fh dvd h \<and> fh \<le> 28 \<and> (\<forall>d. d dvd h \<and> d \<le> 28 \<longrightarrow> d \<le> fh)
     \<and> 0 < fw \<and> fw dvd w \<and> fw \<le> 14 \<and> (\<forall>d. d dvd w \<and> d \<le> 14 \<longrightarrow> d \<le> fw)
     \<and> (\<forall>s. schedule_add env is_broadcast [output] = Inr s \<longrightarrow>
          (\<exists>st. stage_map s output = Some st
             \<and> relations st = [(x_co, 1), (x_i, fh), (x_j, fw)]))
     \<and> tile_factor 56 28 = Inr 28 \<and> tile_factor 56 14 = Inr 14"
proof -
  from tile_factor_largest [OF assms(5), of 28] obtain fh where
    "tile_factor h 28 = Inr fh \<and> 0 < fh \<and> fh dvd h \<and> fh \<le> 28
      \<and> (\<forall>d. d dvd h \<and> d \<le> 28 \<longrightarrow> d \<le> fh)"
    by auto
  then have fh: "tile_factor h 28 = Inr fh"
    and fh_largest: "0 < fh \<and> fh dvd h \<and> fh \<le> 28 \<and> (\<forall>d. d dvd h \<and> d \<le> 28 \<longrightarrow> d \<le> fh)"
    by simp_all
  from tile_factor_largest [OF assms(6), of 14] obtain fw where
    "tile_factor w 14 = Inr fw \<and> 0 < fw \<and> fw dvd w \<and> fw \<le> 14
      \<and> (\<forall>d. d dvd w \<and> d \<le> 14 \<longrightarrow> d \<le> fw)"
    by auto
  then have fw: "tile_factor w 14 = Inr fw"
    and fw_largest: "0 < fw \<and> fw dvd w \<and> fw \<le> 14 \<and> (\<forall>d. d dvd w \<and> d \<le> 14 \<longrightarrow> d \<le> fw)"
    by simp_all
  have "\<exists>st. stage_map s output = Some st \<and> relations st = [(x_co, 1), (x_i, fh), (x_j, fw)]"
    if run: "schedule_add env is_broadcast [output] = Inr s" for s
  proof -
    let ?s0 = "AutoInlineInjective (create_schedule [output])"
    from run assms(1) obtain c s1 store_pt x_co1 where
      tile: "add_tile ?s0 output = Inr (s1, store_pt, x_co1)"
      and stages: "add_stages env s1 output store_pt x_co1 c = Inr s"
      by (auto simp: schedule_add_def Let_def ebind_eq_Inr)
    from first_schedule_stage(1) [OF nodes_self [of "output"]] obtain st0 where
      "stage_map ?s0 output = Some st0 \<and> leaf_iter_vars st0 = root_iter_vars output
        \<and> relations st0 = []" ..
    then have st0: "stage_map ?s0 output = Some st0"
      and leaf0: "leaf_iter_vars st0 = root_iter_vars output" and rel0: "relations st0 = []"
      by simp_all
    from reduce_axis_exists [OF assms(2)] obtain rax where rax: "reduce_axis output = Inr rax" ..
    from add_tile_result [OF tile assms(2) rax assms(3) assms(4) st0 leaf0] fh fw rel0
    obtain st1 where st1: "stage_map s1 output = Some st1"
      and rel1: "relations st1 = [(x_co, 1), (x_i, fh), (x_j, fw)]"
      and id1: "next_id s1 = next_id ?s0"
      by auto
    have "keeps relations output s1 s"
      using stages by (rule keeps_add_stages) simp_all
    moreover have "op_id output < next_id s1"
      using op_id_le_max_id [of "output"] by (simp add: id1 first_schedule_next_id)
    ultimately obtain st where "stage_map s output = Some st" "relations st = relations st1"
      using st1 unfolding keeps_def by blast
    with rel1 show ?thesis
      by simp
  qed
  with fh fw fh_largest fw_largest tile_factor_56 show ?thesis
    by blast
qed

theorem schedule_add_tile_factors_witness:
  "\<exists>s st. schedule_add example_env example_is_broadcast [int_add_output] = Inr s
     \<and> stage_map s int_add_output = Some st
     \<and> relations st = [(IterVar DataPar ''ax1'' 4, 1), (IterVar DataPar ''ax2'' 56, 28),
          (IterVar DataPar ''ax3'' 56, 14)]"
proof -
  from schedule_add_tile_factors [of int_add_output "IterVar DataPar ''ax0'' 1"
      "IterVar DataPar ''ax1'' 4" "IterVar DataPar ''ax2'' 56" "IterVar DataPar ''ax3'' 56"
      "IterVar DataPar ''ax4'' 1" "IterVar DataPar ''ax5'' 16" 56 56
      example_env example_is_broadcast]
  obtain fh fw where fh: "tile_factor 56 28 = Inr fh" and fw: "tile_factor 56 14 = Inr fw"
    and sched: "\<forall>s. schedule_add example_env example_is_broadcast [int_add_output] = Inr s \<longrightarrow>
          (\<exists>st. stage_map s int_add_output = Some st
             \<and> relations st = [(IterVar DataPar ''ax1'' 4, 1),
                  (IterVar DataPar ''ax2'' 56, fh), (IterVar DataPar ''ax3'' 56, fw)])"
    by (auto simp: int_add_output_def)
  from fh fw have "fh = 28" "fw = 14"
    by (simp_all add: tile_factor_56)
  with sched int_add_run show ?thesis
    by blast
qed

subsection \<open>The phases of the packed convolution schedule\<close>
















subsection \<open>The schedule of the example graph\<close>

lemma op_id_differs: "op_id a \<noteq> op_id b \<Longrightarrow> (a = b) = False"
  by auto

lemma example_ids:
  "op_id example_output = 6" "op_id example_add = 5" "op_id example_res = 3"
  "op_id example_bias = 4" "op_id example_kernel = 1" "op_id example_data = 0"
  by (simp_all add: example_output_def example_add_def example_res_def example_bias_def
      example_kernel_def example_data_def)

lemma example_conv_facts:
  "input_tensors example_res =
     [ComputeOp 2 ''pad_data'' ''injective,pad''
         [(''i0'', 1), (''i1'', 4), (''i2'', 18), (''i3'', 18), (''i4'', 1), (''i5'', 16)]
         [] ''int8'' (PadBody [0, 0, 1, 1, 0, 0] [0, 0, 1, 1, 0, 0]) [example_data],
      example_kernel]"
  "axis example_res = Inr [IterVar DataPar ''b_o'' 1, IterVar DataPar ''c_o'' 4,
     IterVar DataPar ''i'' 16, IterVar DataPar ''j'' 16, IterVar DataPar ''b_i'' 1,
     IterVar DataPar ''c_i'' 16]"
  "reduce_axis example_res = Inr [IterVar CommReduce ''k_o'' 4, IterVar CommReduce ''d_i'' 3,
     IterVar CommReduce ''d_j'' 3, IterVar CommReduce ''k_i'' 16]"
  "root_iter_vars example_res = [IterVar DataPar ''b_o'' 1, IterVar DataPar ''c_o'' 4,
     IterVar DataPar ''i'' 16, IterVar DataPar ''j'' 16, IterVar DataPar ''b_i'' 1,
     IterVar DataPar ''c_i'' 16, IterVar CommReduce ''k_o'' 4, IterVar CommReduce ''d_i'' 3,
     IterVar CommReduce ''d_j'' 3, IterVar CommReduce ''k_i'' 16]"
  by (simp_all add: example_res_def)

lemma example_output_facts:
  "axis example_output = Inr [IterVar DataPar ''ax0'' 1, IterVar DataPar ''ax1'' 4,
     IterVar DataPar ''ax2'' 16, IterVar DataPar ''ax3'' 16, IterVar DataPar ''ax4'' 1,
     IterVar DataPar ''ax5'' 16]"
  "root_iter_vars example_output = [IterVar DataPar ''ax0'' 1, IterVar DataPar ''ax1'' 4,
     IterVar DataPar ''ax2'' 16, IterVar DataPar ''ax3'' 16, IterVar DataPar ''ax4'' 1,
     IterVar DataPar ''ax5'' 16]"
  "root_iter_vars example_add = [IterVar DataPar ''ax0'' 1, IterVar DataPar ''ax1'' 4,
     IterVar DataPar ''ax2'' 16, IterVar DataPar ''ax3'' 16, IterVar DataPar ''ax4'' 1,
     IterVar DataPar ''ax5'' 16]"
  by (simp_all add: example_output_def example_add_def)

lemma example_placeholder_facts:
  "shape example_kernel = [4, 4, 3, 3, 16, 16]" "dtype example_kernel = ''int8''"
  "op_name example_kernel = ''kernel''" "shape example_bias = [1, 4, 1, 1, 1, 16]"
  "op_name example_bias = ''bias''"
  by (simp_all add: example_kernel_def example_bias_def)

lemma example_nodes:
  "nodes example_output =
     [example_output, example_add, example_res,
      ComputeOp 2 ''pad_data'' ''injective,pad''
         [(''i0'', 1), (''i1'', 4), (''i2'', 18), (''i3'', 18), (''i4'', 1), (''i5'', 16)]
         [] ''int8'' (PadBody [0, 0, 1, 1, 0, 0] [0, 0, 1, 1, 0, 0]) [example_data],
      example_data, example_kernel, example_bias]"
  by (simp add: nodes.simps example_conv_facts example_data_def example_kernel_def
      example_bias_def)

lemma example_first_schedule:
  "stage_map (create_schedule [example_output]) x =
     (if x \<in> set (nodes example_output) then Some (new_stage x) else None)"
  "next_id (create_schedule [example_output]) = 7"
  by (simp_all add: create_schedule_def example_output_def example_add_def example_res_def
      example_bias_def example_kernel_def example_data_def)

lemmas example_graph = op_id_differs example_ids example_conv_facts example_output_facts
  example_placeholder_facts example_nodes example_first_schedule

lemmas schedule_primitives = get_stage_def put_stage_def set_scope_def compute_inline_def
  annotate_def pragma_def tensorize_def bind_thread_def compute_at_def split_def
  substitute_def reorder_def cache_read_def first_axis_def pragma_first_axis_def
  apply_split_def knob_val_def new_stage_def Let_def

lemma example_classify:
  "classify example_is_broadcast [example_output] =
     Inr (example_output, \<lparr>const_ops = [], ewise_inputs = [(example_add, example_bias)],
          ewise_ops = [example_add], conv2d_res = [example_res]\<rparr>)"
  by (simp add: classify_def example_traverse)


lemma example_run:
  "\<exists>s cfg'.
     schedule_conv2d_packed example_env example_is_broadcast example_tuned [example_output] =
     Inr (s, cfg')"
  by (simp add: schedule_conv2d_packed_def schedule_conv2d_packed_tiled_def example_classify
      define_space_def setup_stages_def tile_def attach_stages_def virtual_thread_def
      stage_reduction_def use_vta_instructions_def example_graph schedule_primitives
      example_env_def example_tuned_def example_entities_def define_split_def define_knob_def)

subsection \<open>The loop nest of the output stage and the attach points\<close>




subsection \<open>An axis that has been split stays out of the loop nest\<close>









subsection \<open>The reduction staging of the convolution stage\<close>













subsection \<open>An operation below the convolution\<close>

text \<open>
  Claim C4, as stated, fails: not every reachable operation is classified or checked. In
  the example graph the pad node is an input of the convolution, so it is reachable from
  the output; it is not broadcast-tagged and does not carry the tag \<^verbatim>\<open>conv2d_dense\<close>.
  The traversal stops at the convolution and never visits it: it is in none of the lists,
  the traversal succeeds and \<^verbatim>\<open>schedule_conv2d_packed\<close> returns a schedule.
\<close>

theorem reachable_pad_not_classified:
  "example_pad \<in> set (nodes example_output)
   \<and> example_pad \<in> set (input_tensors example_res)
   \<and> \<not> example_is_broadcast (tag example_pad) \<and> tag example_pad \<noteq> ''conv2d_dense''
   \<and> example_pad \<notin> set (visits example_is_broadcast example_output)
   \<and> (\<exists>c. traverse example_is_broadcast example_output example_output no_classes = Inr c
        \<and> example_pad \<notin> set (const_ops c) \<and> example_pad \<notin> set (ewise_ops c)
        \<and> example_pad \<notin> set (conv2d_res c))
   \<and> (\<exists>s cfg'. schedule_conv2d_packed example_env example_is_broadcast example_tuned
         [example_output] = Inr (s, cfg'))"
proof -
  have pad: "example_pad \<noteq> example_output" "example_pad \<noteq> example_add"
    "example_pad \<noteq> example_res"
    by (simp_all add: example_pad_def example_output_def example_add_def example_res_def)
  have "example_pad \<in> set (nodes example_output)"
    "example_pad \<in> set (input_tensors example_res)"
    by (simp_all add: example_nodes example_conv_facts example_pad_def)
  moreover have "\<not> example_is_broadcast (tag example_pad)"
    "tag example_pad \<noteq> ''conv2d_dense''"
    by (simp_all add: example_pad_def)
  moreover have "example_pad \<notin> set (visits example_is_broadcast example_output)"
    using pad by (simp add: example_visits)
  moreover have "\<exists>c. traverse example_is_broadcast example_output example_output no_classes
        = Inr c
        \<and> example_pad \<notin> set (const_ops c) \<and> example_pad \<notin> set (ewise_ops c)
        \<and> example_pad \<notin> set (conv2d_res c)"
    using pad by (simp add: example_traverse)
  ultimately show ?thesis
    using example_run by blast
qed

end
